theory Spec2Isabelle
  imports Complex_Main "HOL-Library.Multiset" "HOL-Library.AList"
begin

section \<open>JavaScript numbers\<close>

text \<open>
  Every numeric field of the dashboard is a JavaScript number. The model keeps the values
  that behave specially in the source (\<open>NaN\<close>, which is falsy and unequal to itself, and
  the two infinities) and represents every finite number by the real number it denotes.
  A numeric literal is rounded to binary64 when it is read (\<open>binary64\<close> below). Addition
  and subtraction are exact: a sum of the model is the sum of the source as long as no
  addition of the source rounds, which is so for integers below \<open>2^53\<close>, and nothing
  below is claimed of the source that rests on the order of a sum. The negative zero is
  identified with zero.
\<close>

datatype jsnum = NaN | PInf | NInf | Fin real

instantiation jsnum :: comm_monoid_add
begin

definition zero_jsnum :: jsnum where
  "zero_jsnum = Fin 0"

fun plus_jsnum :: "jsnum \<Rightarrow> jsnum \<Rightarrow> jsnum" where
  "plus_jsnum NaN y = NaN"
| "plus_jsnum x NaN = NaN"
| "plus_jsnum PInf NInf = NaN"
| "plus_jsnum NInf PInf = NaN"
| "plus_jsnum PInf y = PInf"
| "plus_jsnum x PInf = PInf"
| "plus_jsnum NInf y = NInf"
| "plus_jsnum x NInf = NInf"
| "plus_jsnum (Fin a) (Fin b) = Fin (a + b)"

instance
proof (standard, goal_cases)
  case (1 x y z)
  show ?case by (cases x; cases y; cases z; simp)
next
  case (2 x y)
  show ?case by (cases x; cases y; simp)
next
  case (3 x)
  show ?case by (cases x; simp add: zero_jsnum_def)
qed

end

text \<open>The binary \<open>-\<close> of the source on two numbers.\<close>

fun js_sub :: "jsnum \<Rightarrow> jsnum \<Rightarrow> jsnum" where
  "js_sub NaN y = NaN"
| "js_sub x NaN = NaN"
| "js_sub PInf PInf = NaN"
| "js_sub NInf NInf = NaN"
| "js_sub PInf y = PInf"
| "js_sub x NInf = PInf"
| "js_sub NInf y = NInf"
| "js_sub x PInf = NInf"
| "js_sub (Fin a) (Fin b) = Fin (a - b)"

text \<open>\<open>ToBoolean\<close> on a number: zero and \<open>NaN\<close> are falsy.\<close>

fun truthy :: "jsnum \<Rightarrow> bool" where
  "truthy NaN = False"
| "truthy (Fin r) = (r \<noteq> 0)"
| "truthy PInf = True"
| "truthy NInf = True"

text \<open>\<open>a || b\<close> on numbers: the left operand when it is truthy, else the right one.\<close>

definition js_or :: "jsnum \<Rightarrow> jsnum \<Rightarrow> jsnum" where
  "js_or a b = (if truthy a then a else b)"

text \<open>\<open>a === b\<close> on numbers: \<open>NaN\<close> is not equal to anything, itself included.\<close>

definition js_seq :: "jsnum \<Rightarrow> jsnum \<Rightarrow> bool" where
  "js_seq a b = (a \<noteq> NaN \<and> b \<noteq> NaN \<and> a = b)"

text \<open>\<open>a > b\<close> on numbers: false as soon as one side is \<open>NaN\<close>.\<close>

fun js_gt :: "jsnum \<Rightarrow> jsnum \<Rightarrow> bool" where
  "js_gt NaN y = False"
| "js_gt x NaN = False"
| "js_gt PInf y = (y \<noteq> PInf)"
| "js_gt x PInf = False"
| "js_gt x NInf = (x \<noteq> NInf)"
| "js_gt NInf y = False"
| "js_gt (Fin a) (Fin b) = (a > b)"

section \<open>Data model\<close>

text \<open>
  The four counters are shared by the form (where a field holds whatever the input
  control gave), the stored entries, the per-member totals and the grand total (where it
  holds a number). A totals record adds the member's name, an entry adds the bucket
  fields written at submission. The fields \<open>date\<close>, \<open>createdAt\<close> and \<open>id\<close> of a stored
  document are never read by the functions below and are left out.
\<close>

record 'a counters =
  intakes :: 'a
  interviews :: 'a
  placements :: 'a
  prospects :: 'a

record totals = "jsnum counters" +
  name :: string

text \<open>The reference bucket \<open>period\<close> of the selected date.\<close>

record period =
  week :: jsnum
  month :: jsnum
  year :: jsnum

record entry = totals +
  week :: jsnum
  month :: jsnum
  year :: jsnum

definition CONSULTANTS :: "string list" where
  "CONSULTANTS = [''Marcus'', ''Lisanna'', ''Nick'', ''Gea'', ''Dion'', ''Sander'', ''Yde'']"

section \<open>Filtering, aggregation and grand total\<close>

text \<open>The predicate of \<open>entries.filter\<close> in \<open>filtered\<close>, in the order of the source.\<close>

definition in_range :: "string \<Rightarrow> period \<Rightarrow> entry \<Rightarrow> bool" where
  "in_range filterRange p e =
     (if filterRange = ''week''
        then js_seq (entry.week e) (period.week p) \<and> js_seq (entry.year e) (period.year p)
      else if filterRange = ''month''
        then js_seq (entry.month e) (period.month p) \<and> js_seq (entry.year e) (period.year p)
      else if filterRange = ''year''
        then js_seq (entry.year e) (period.year p)
      else True)"

definition filtered :: "entry list \<Rightarrow> string \<Rightarrow> period \<Rightarrow> entry list" where
  "filtered entries filterRange p = filter (in_range filterRange p) entries"

text \<open>
  \<open>Object.fromEntries\<close> builds an object from key/value pairs: a later pair with a key
  already present replaces the value and keeps the key's position. The object is an
  association list, since \<open>Object.values\<close> reads it in insertion order (the keys here are
  names, not array indices, for which JavaScript would order numerically).
\<close>

definition Object_fromEntries :: "(string \<times> 'v) list \<Rightarrow> (string \<times> 'v) list" where
  "Object_fromEntries kvs = foldl (\<lambda>obj (k, v). AList.update k v obj) [] kvs"

definition Object_values :: "(string \<times> 'v) list \<Rightarrow> 'v list" where
  "Object_values obj = map snd obj"

definition zero_totals :: "string \<Rightarrow> totals" where
  "zero_totals n =
     \<lparr>intakes = Fin 0, interviews = Fin 0, placements = Fin 0, prospects = Fin 0, name = n\<rparr>"

definition base0 :: "(string \<times> totals) list" where
  "base0 = Object_fromEntries (map (\<lambda>n. (n, zero_totals n)) CONSULTANTS)"

text \<open>
  One iteration of the loop of \<open>aggregated\<close>. A name with no own property in \<open>base\<close> is
  skipped by \<open>continue\<close>. (A name that only hits an inherited property of the plain
  object, such as \<open>constructor\<close>, is not skipped by the source, but its four additions
  write to that inherited object and never to an own property of \<open>base\<close>, so the values
  read by \<open>Object.values\<close> are those of the skipped case.)
\<close>

definition add_entry :: "entry \<Rightarrow> totals \<Rightarrow> totals" where
  "add_entry e t =
     t\<lparr>intakes := intakes t + js_or (intakes e) (Fin 0),
       interviews := interviews t + js_or (interviews e) (Fin 0),
       placements := placements t + js_or (placements e) (Fin 0),
       prospects := prospects t + js_or (prospects e) (Fin 0)\<rparr>"

definition agg_step :: "entry \<Rightarrow> (string \<times> totals) list \<Rightarrow> (string \<times> totals) list" where
  "agg_step e base =
     (case map_of base (name e) of
        None \<Rightarrow> base
      | Some t \<Rightarrow> AList.update (name e) (add_entry e t) base)"

definition aggregated :: "entry list \<Rightarrow> totals list" where
  "aggregated flt = Object_values (fold agg_step flt base0)"

definition total :: "totals list \<Rightarrow> jsnum counters" where
  "total agg =
     foldl (\<lambda>acc cur.
              \<lparr>intakes = intakes acc + intakes cur,
               interviews = interviews acc + interviews cur,
               placements = placements acc + placements cur,
               prospects = prospects acc + prospects cur\<rparr>)
           \<lparr>intakes = Fin 0, interviews = Fin 0, placements = Fin 0, prospects = Fin 0\<rparr>
           agg"

section \<open>Calendar bucketing\<close>

subsection \<open>The Date primitives used by \<open>isoWeek\<close>\<close>

text \<open>
  \<open>isoWeek\<close> works on time values, the milliseconds since 1 January 1970 UTC that a
  \<open>Date\<close> object holds. The functions below are the abstract operations of the ECMAScript
  specification of \<open>Date\<close>, under their names there. A time value is an \<open>int\<close>; the
  \<open>NaN\<close> of an invalid date is \<open>None\<close>.
\<close>

definition msPerDay :: int where
  "msPerDay = 86400000"

definition Day :: "int \<Rightarrow> int" where
  "Day t = t div msPerDay"

definition TimeWithinDay :: "int \<Rightarrow> int" where
  "TimeWithinDay t = t mod msPerDay"

definition DaysInYear :: "int \<Rightarrow> int" where
  "DaysInYear y =
     (if y mod 4 \<noteq> 0 then 365
      else if y mod 100 \<noteq> 0 then 366
      else if y mod 400 \<noteq> 0 then 365
      else 366)"

text \<open>The day number of 1 January of year \<open>y\<close>.\<close>

definition DayFromYear :: "int \<Rightarrow> int" where
  "DayFromYear y =
     365 * (y - 1970) + (y - 1969) div 4 - (y - 1901) div 100 + (y - 1601) div 400"

text \<open>
  The year of a day number: ECMAScript defines it as the largest \<open>y\<close> with
  \<open>DayFromYear y \<le> n\<close>. The definition computes it from the mean year length of 146097/400
  days, which is off by at most one year; \<open>YearFromDay_greatest\<close> below shows that the
  result is the largest such year.
\<close>

definition YearFromDay :: "int \<Rightarrow> int" where
  "YearFromDay n =
     (let y = 1970 + (400 * n) div 146097
      in if n < DayFromYear y then y - 1
         else if DayFromYear (y + 1) \<le> n then y + 1
         else y)"

definition YearFromTime :: "int \<Rightarrow> int" where
  "YearFromTime t = YearFromDay (Day t)"

definition InLeapYear :: "int \<Rightarrow> bool" where
  "InLeapYear t = (DaysInYear (YearFromTime t) = 366)"

definition DayWithinYear :: "int \<Rightarrow> int" where
  "DayWithinYear t = Day t - DayFromYear (YearFromTime t)"

text \<open>The number of days of a year that precede month \<open>m\<close> (0 is January).\<close>

definition month_start :: "bool \<Rightarrow> int \<Rightarrow> int" where
  "month_start leap m =
     [0, 31, 59, 90, 120, 151, 181, 212, 243, 273, 304, 334] ! nat m
       + (if leap \<and> 2 \<le> m then 1 else 0)"

definition MonthFromTime :: "int \<Rightarrow> int" where
  "MonthFromTime t =
     (let d = DayWithinYear t; l = (if InLeapYear t then 1 else 0)
      in if d < 31 then 0
         else if d < 59 + l then 1
         else if d < 90 + l then 2
         else if d < 120 + l then 3
         else if d < 151 + l then 4
         else if d < 181 + l then 5
         else if d < 212 + l then 6
         else if d < 243 + l then 7
         else if d < 273 + l then 8
         else if d < 304 + l then 9
         else if d < 334 + l then 10
         else 11)"

definition DateFromTime :: "int \<Rightarrow> int" where
  "DateFromTime t = DayWithinYear t - month_start (InLeapYear t) (MonthFromTime t) + 1"

text \<open>\<open>getUTCDay\<close>: 0 is Sunday; day 0 was a Thursday.\<close>

definition WeekDay :: "int \<Rightarrow> int" where
  "WeekDay t = (Day t + 4) mod 7"

text \<open>
  \<open>MakeDay\<close> accepts any month and day of month and normalises them: months beyond 0..11
  carry into the year, and the day of month is an offset from the first of the month.
\<close>

definition MakeDay :: "int \<Rightarrow> int \<Rightarrow> int \<Rightarrow> int" where
  "MakeDay yr m dt =
     (let ym = yr + m div 12; mn = m mod 12
      in DayFromYear ym + month_start (DaysInYear ym = 366) mn + dt - 1)"

definition MakeDate :: "int \<Rightarrow> int \<Rightarrow> int" where
  "MakeDate day time = day * msPerDay + time"

text \<open>A \<open>Date\<close> holds at most 100,000,000 days on either side of the epoch.\<close>

definition TimeClip :: "int \<Rightarrow> int option" where
  "TimeClip t = (if \<bar>t\<bar> > 8640000000000000 then None else Some t)"

text \<open>
  \<open>Date.UTC(year, month, date)\<close>. A year from 0 to 99 stands for 1900 to 1999, as the
  ECMAScript specification of \<open>Date.UTC\<close> prescribes.
\<close>

definition Date_UTC :: "int \<Rightarrow> int \<Rightarrow> int \<Rightarrow> int option" where
  "Date_UTC y m dt =
     (let yr = (if 0 \<le> y \<and> y \<le> 99 then 1900 + y else y)
      in TimeClip (MakeDate (MakeDay yr m dt) 0))"

text \<open>\<open>setUTCDate(dt)\<close> on a valid date with time value \<open>t\<close>; the result is the new time value.\<close>

definition setUTCDate :: "int \<Rightarrow> int \<Rightarrow> int option" where
  "setUTCDate t dt =
     TimeClip (MakeDate (MakeDay (YearFromTime t) (MonthFromTime t) dt) (TimeWithinDay t))"

subsection \<open>\<open>isoWeek\<close>\<close>

text \<open>
  \<open>isoWeek\<close> reads its argument through \<open>getFullYear\<close>, \<open>getMonth\<close> and \<open>getDate\<close> only,
  so a \<open>Date\<close> object is the record of what these three getters return: the calendar
  date in local time, with January as month 0.
\<close>

record jsdate =
  getFullYear :: int
  getMonth :: int
  getDate :: int

text \<open>
  Line by line: \<open>tmp\<close> is the UTC midnight of the calendar date; \<open>day\<close> is its weekday with
  Sunday as 7; \<open>tmp\<close> moves to the Thursday of its week; \<open>yearStart\<close> is 1 January of the
  year \<open>tmp\<close> is in then; the result is the rounded-up quotient. Once a \<open>Date\<close> is invalid
  every later value is \<open>NaN\<close>, and so is the result.
\<close>

definition isoWeek :: "jsdate \<Rightarrow> jsnum" where
  "isoWeek d =
     (case Date_UTC (getFullYear d) (getMonth d) (getDate d) of
        None \<Rightarrow> NaN
      | Some tmp \<Rightarrow>
          let day = (if WeekDay tmp = 0 then 7 else WeekDay tmp)
          in (case setUTCDate tmp (DateFromTime tmp + 4 - day) of
                None \<Rightarrow> NaN
              | Some tmp' \<Rightarrow>
                  (case Date_UTC (YearFromTime tmp') 0 1 of
                     None \<Rightarrow> NaN
                   | Some yearStart \<Rightarrow>
                       Fin (of_int \<lceil>(real_of_int (tmp' - yearStart) / 86400000 + 1) / 7\<rceil>))))"

subsection \<open>The ISO week number as the specification states it\<close>

text \<open>
  A calendar date is valid when its month is one of the twelve and its day exists in that
  month. \<open>civil_day\<close> is its day number in the proleptic Gregorian calendar, counted from
  1 January 1970.
\<close>

definition DaysInMonth :: "int \<Rightarrow> int \<Rightarrow> int" where
  "DaysInMonth y m =
     [31, if DaysInYear y = 366 then 29 else 28, 31, 30, 31, 30, 31, 31, 30, 31, 30, 31] ! nat m"

definition valid_date :: "jsdate \<Rightarrow> bool" where
  "valid_date d =
     (0 \<le> getMonth d \<and> getMonth d \<le> 11 \<and> 1 \<le> getDate d
      \<and> getDate d \<le> DaysInMonth (getFullYear d) (getMonth d))"

definition civil_day :: "jsdate \<Rightarrow> int" where
  "civil_day d =
     DayFromYear (getFullYear d)
       + month_start (DaysInYear (getFullYear d) = 366) (getMonth d) + getDate d - 1"

text \<open>
  The Thursday of the Monday-start week that contains day \<open>n\<close>: \<open>(n + 3) mod 7\<close> is the
  number of days since that week's Monday.
\<close>

definition thursday_of_week :: "int \<Rightarrow> int" where
  "thursday_of_week n = n - (n + 3) mod 7 + 3"

definition iso_week_year :: "jsdate \<Rightarrow> int" where
  "iso_week_year d = YearFromDay (thursday_of_week (civil_day d))"

text \<open>
  The week number in the specification's words: shift the date to the Thursday of its
  week, then divide the days since 1 January of that Thursday's year, plus one, by seven
  and round up.
\<close>

definition iso_week :: "jsdate \<Rightarrow> int" where
  "iso_week d =
     (let th = thursday_of_week (civil_day d);
          jan1 = DayFromYear (YearFromDay th)
      in \<lceil>(real_of_int (th - jan1) + 1) / 7\<rceil>)"

text \<open>The date written year-month-day, with January as month 1.\<close>

definition ymd :: "int \<Rightarrow> int \<Rightarrow> int \<Rightarrow> jsdate" where
  "ymd y m d = \<lparr>getFullYear = y, getMonth = m - 1, getDate = d\<rparr>"

section \<open>Ranking\<close>

datatype js_error = ReferenceError | RangeError | Rejected string

text \<open>
  The comparator of \<open>ranking\<close>:
  \<^verbatim>\<open>(b.placements-a.placements) || (b.intakes-a.intakes) || (b.interviews-a-interviews)\<close>.
  The third operand is evaluated when the first two are falsy. It subtracts from
  \<open>b.interviews - a\<close> the value of an identifier \<open>interviews\<close>, which no scope of the module
  declares: reading it throws a \<open>ReferenceError\<close>.
\<close>

definition compare_totals :: "totals \<Rightarrow> totals \<Rightarrow> js_error + jsnum" where
  "compare_totals a b =
     (let p = js_sub (placements b) (placements a)
      in if truthy p then Inr p
         else let i = js_sub (intakes b) (intakes a)
              in if truthy i then Inr i
                 else Inl ReferenceError)"

text \<open>
  \<open>Array.prototype.sort\<close> with a comparator. ECMAScript requires the sort to be stable,
  leaves the sequence of comparator calls to the implementation, and makes the sort throw
  what a comparator call throws. The model is a straight insertion sort. \<open>sort_insert\<close>
  places \<open>x\<close> into the sorted elements before it, held last element first: \<open>x\<close> moves left
  past every \<open>y\<close> that the comparator puts after it (a positive result of \<open>cmp y x\<close>) and
  stops at the first \<open>y\<close> for which the result is negative, zero or \<open>NaN\<close>.
\<close>

fun sort_insert ::
  "('a \<Rightarrow> 'a \<Rightarrow> js_error + jsnum) \<Rightarrow> 'a \<Rightarrow> 'a list \<Rightarrow> js_error + 'a list" where
  "sort_insert cmp x [] = Inr [x]"
| "sort_insert cmp x (y # rs) =
     (case cmp y x of
        Inl e \<Rightarrow> Inl e
      | Inr v \<Rightarrow>
          if js_gt v (Fin 0)
          then (case sort_insert cmp x rs of Inl e \<Rightarrow> Inl e | Inr zs \<Rightarrow> Inr (y # zs))
          else Inr (x # y # rs))"

fun sort_from ::
  "('a \<Rightarrow> 'a \<Rightarrow> js_error + jsnum) \<Rightarrow> 'a list \<Rightarrow> 'a list \<Rightarrow> js_error + 'a list" where
  "sort_from cmp [] rs = Inr (rev rs)"
| "sort_from cmp (x # xs) rs =
     (case sort_insert cmp x rs of Inl e \<Rightarrow> Inl e | Inr rs' \<Rightarrow> sort_from cmp xs rs')"

definition js_sort :: "('a \<Rightarrow> 'a \<Rightarrow> js_error + jsnum) \<Rightarrow> 'a list \<Rightarrow> js_error + 'a list" where
  "js_sort cmp xs = sort_from cmp xs []"

text \<open>\<open>ranking\<close> sorts a copy of the aggregated list.\<close>

definition ranking :: "totals list \<Rightarrow> js_error + totals list" where
  "ranking agg = js_sort compare_totals agg"

text \<open>
  The comparator of the specification: placements, then intakes, then interviews, each
  descending.
\<close>

definition compare_spec :: "totals \<Rightarrow> totals \<Rightarrow> js_error + jsnum" where
  "compare_spec a b =
     Inr (js_or (js_or (js_sub (placements b) (placements a))
                       (js_sub (intakes b) (intakes a)))
                (js_sub (interviews b) (interviews a)))"

text \<open>
  For stating what \<open>ranking\<close> does on totals whose placements and intakes are finite
  numbers: the pair of the two keys, and the order the first two keys of the comparator
  induce.
\<close>

fun is_fin :: "jsnum \<Rightarrow> bool" where
  "is_fin (Fin r) = True"
| "is_fin x = False"

fun fin_value :: "jsnum \<Rightarrow> real" where
  "fin_value (Fin r) = r"
| "fin_value x = 0"

definition fin_keys :: "totals \<Rightarrow> bool" where
  "fin_keys t = (is_fin (placements t) \<and> is_fin (intakes t))"

definition sort_key :: "totals \<Rightarrow> real \<times> real" where
  "sort_key t = (fin_value (placements t), fin_value (intakes t))"

definition ranks_before :: "totals \<Rightarrow> totals \<Rightarrow> bool" where
  "ranks_before a b =
     (fst (sort_key a) > fst (sort_key b)
      \<or> fst (sort_key a) = fst (sort_key b) \<and> snd (sort_key a) > snd (sort_key b))"

section \<open>Numeric coercion of the form\<close>

subsection \<open>Rounding to binary64\<close>

text \<open>
  \<open>binary64 n d\<close> is the JavaScript number nearest to the quotient \<open>n / d\<close> of a natural
  number and a positive one, ties going to the even significand: with \<open>e\<close> the exponent of
  the quotient's binade, held at -1022 for the subnormal numbers, the quotient is rounded
  to a multiple of \<open>2^(e - 52)\<close>, and a result of \<open>2^1024\<close> or more is \<open>Infinity\<close>.
\<close>

function bit_length :: "int \<Rightarrow> int" where
  "bit_length n = (if n \<le> 0 then 0 else 1 + bit_length (n div 2))"
  by pat_completeness auto
termination
  by (relation "measure nat") auto

declare bit_length.simps [simp del]

function ipow :: "int \<Rightarrow> int \<Rightarrow> int" where
  "ipow b k = (if k \<le> 0 then 1 else b * ipow b (k - 1))"
  by pat_completeness auto
termination
  by (relation "measure (\<lambda>(b, k). nat k)") auto

declare ipow.simps [simp del]

definition round_half_even :: "int \<Rightarrow> int \<Rightarrow> int" where
  "round_half_even a b =
     (let q = a div b; r = a mod b
      in if 2 * r < b then q
         else if b < 2 * r then q + 1
         else if even q then q else q + 1)"

definition binary64 :: "int \<Rightarrow> int \<Rightarrow> jsnum" where
  "binary64 n d =
     (if n \<le> 0 then Fin 0
      else
        let e0 = bit_length n - bit_length d;
            e = (if (if 0 \<le> e0 then d * ipow 2 e0 \<le> n else d \<le> n * ipow 2 (- e0))
                 then e0 else e0 - 1);
            s = max e (- 1022) - 52;
            m = (if 0 \<le> s then round_half_even n (d * ipow 2 s)
                 else round_half_even (n * ipow 2 (- s)) d)
        in if 1024 < bit_length m + s then PInf
           else if 0 \<le> s then Fin (of_int (m * ipow 2 s))
           else Fin (of_int m / of_int (ipow 2 (- s))))"

text \<open>A number that is a count: finite, whole and not negative.\<close>

fun is_count :: "jsnum \<Rightarrow> bool" where
  "is_count (Fin r) = (0 \<le> r \<and> r = of_int \<lfloor>r\<rfloor>)"
| "is_count x = False"

subsection \<open>\<open>Number\<close>\<close>

text \<open>
  A field of the form state holds the number 0 (initially and after a reset) or the string
  that a number input reported. \<open>Number(v)\<close> leaves a number as it is and reads a string as
  a numeric literal: white space around it is dropped, the empty string is 0, a string
  that is no literal is \<open>NaN\<close>, and the value of a literal is rounded to binary64
  (ECMAScript lets an implementation cut a decimal literal after its twentieth
  significant digit; the model rounds the whole literal, as the engines in use do).
  A string is the list of its UTF-8 bytes, so the white space of JavaScript beyond ASCII
  (the no-break space, the byte order mark, the line and paragraph separators and the
  other space separators) is a sequence of two or three bytes. \<open>strip_ws\<close> drops white
  space from the front of a string, or, with \<open>back\<close>, from the front of the reversed
  string.
\<close>

datatype jsval = JNum jsnum | JStr string

definition is_ws :: "char \<Rightarrow> bool" where
  "is_ws c = (c \<in> set [CHR '' '', CHR 0x09, CHR 0x0A, CHR 0x0B, CHR 0x0C, CHR 0x0D])"

definition is_ws2 :: "char \<Rightarrow> char \<Rightarrow> bool" where
  "is_ws2 a b = (a = CHR 0xC2 \<and> b = CHR 0xA0)"

definition is_ws3 :: "char \<Rightarrow> char \<Rightarrow> char \<Rightarrow> bool" where
  "is_ws3 a b c =
     (a = CHR 0xE1 \<and> b = CHR 0x9A \<and> c = CHR 0x80
      \<or> a = CHR 0xE2 \<and> b = CHR 0x80
          \<and> c \<in> set [CHR 0x80, CHR 0x81, CHR 0x82, CHR 0x83, CHR 0x84, CHR 0x85, CHR 0x86,
                       CHR 0x87, CHR 0x88, CHR 0x89, CHR 0x8A, CHR 0xA8, CHR 0xA9, CHR 0xAF]
      \<or> a = CHR 0xE2 \<and> b = CHR 0x81 \<and> c = CHR 0x9F
      \<or> a = CHR 0xE3 \<and> b = CHR 0x80 \<and> c = CHR 0x80
      \<or> a = CHR 0xEF \<and> b = CHR 0xBB \<and> c = CHR 0xBF)"

fun strip_ws :: "bool \<Rightarrow> string \<Rightarrow> string" where
  "strip_ws back (a # b # c # s) =
     (if is_ws a then strip_ws back (b # c # s)
      else if (if back then is_ws2 b a else is_ws2 a b) then strip_ws back (c # s)
      else if (if back then is_ws3 c b a else is_ws3 a b c) then strip_ws back s
      else a # b # c # s)"
| "strip_ws back [a, b] =
     (if is_ws a then strip_ws back [b]
      else if (if back then is_ws2 b a else is_ws2 a b) then []
      else [a, b])"
| "strip_ws back [a] = (if is_ws a then [] else [a])"
| "strip_ws back [] = []"

definition trim :: "string \<Rightarrow> string" where
  "trim s = rev (strip_ws True (rev (strip_ws False s)))"

definition digit_value :: "char \<Rightarrow> int option" where
  "digit_value c =
     map_of [(CHR ''0'', 0), (CHR ''1'', 1), (CHR ''2'', 2), (CHR ''3'', 3), (CHR ''4'', 4),
             (CHR ''5'', 5), (CHR ''6'', 6), (CHR ''7'', 7), (CHR ''8'', 8), (CHR ''9'', 9),
             (CHR ''a'', 10), (CHR ''b'', 11), (CHR ''c'', 12), (CHR ''d'', 13),
             (CHR ''e'', 14), (CHR ''f'', 15),
             (CHR ''A'', 10), (CHR ''B'', 11), (CHR ''C'', 12), (CHR ''D'', 13),
             (CHR ''E'', 14), (CHR ''F'', 15)] c"

fun digits_value :: "int \<Rightarrow> int \<Rightarrow> string \<Rightarrow> int option" where
  "digits_value radix acc [] = Some acc"
| "digits_value radix acc (c # cs) =
     (case digit_value c of
        None \<Rightarrow> None
      | Some v \<Rightarrow> if v < radix then digits_value radix (acc * radix + v) cs else None)"

definition radix_literal :: "int \<Rightarrow> string \<Rightarrow> jsnum" where
  "radix_literal radix s =
     (if s = [] then NaN
      else case digits_value radix 0 s of None \<Rightarrow> NaN | Some n \<Rightarrow> binary64 n 1)"

definition signed_digits :: "string \<Rightarrow> int option" where
  "signed_digits s =
     (case s of
        [] \<Rightarrow> None
      | c # r \<Rightarrow>
          if c = CHR ''+'' \<or> c = CHR ''-''
          then (if r = [] then None
                else map_option (\<lambda>n. if c = CHR ''-'' then - n else n) (digits_value 10 0 r))
          else digits_value 10 0 s)"

definition StrUnsignedDecimalLiteral :: "string \<Rightarrow> jsnum" where
  "StrUnsignedDecimalLiteral s =
     (if s = ''Infinity'' then PInf
      else
        let mant = takeWhile (\<lambda>c. c \<noteq> CHR ''e'' \<and> c \<noteq> CHR ''E'') s;
            ex = dropWhile (\<lambda>c. c \<noteq> CHR ''e'' \<and> c \<noteq> CHR ''E'') s;
            ip = takeWhile (\<lambda>c. c \<noteq> CHR ''.'') mant;
            fd = tl (dropWhile (\<lambda>c. c \<noteq> CHR ''.'') mant)
        in if ip = [] \<and> fd = [] then NaN
           else case (digits_value 10 0 (ip @ fd),
                      if ex = [] then Some 0 else signed_digits (tl ex)) of
                  (Some m, Some x) \<Rightarrow>
                    (let k = x - int (length fd)
                     in if 0 \<le> k then binary64 (m * ipow 10 k) 1
                        else binary64 m (ipow 10 (- k)))
                | _ \<Rightarrow> NaN)"

fun js_neg :: "jsnum \<Rightarrow> jsnum" where
  "js_neg NaN = NaN"
| "js_neg PInf = NInf"
| "js_neg NInf = PInf"
| "js_neg (Fin r) = Fin (- r)"

definition StringToNumber :: "string \<Rightarrow> jsnum" where
  "StringToNumber str =
     (let s = trim str
      in if s = [] then Fin 0
         else if take 2 s = ''0x'' \<or> take 2 s = ''0X'' then radix_literal 16 (drop 2 s)
         else if take 2 s = ''0o'' \<or> take 2 s = ''0O'' then radix_literal 8 (drop 2 s)
         else if take 2 s = ''0b'' \<or> take 2 s = ''0B'' then radix_literal 2 (drop 2 s)
         else if hd s = CHR ''+'' then StrUnsignedDecimalLiteral (tl s)
         else if hd s = CHR ''-'' then js_neg (StrUnsignedDecimalLiteral (tl s))
         else StrUnsignedDecimalLiteral s)"

fun Number :: "jsval \<Rightarrow> jsnum" where
  "Number (JNum n) = n"
| "Number (JStr s) = StringToNumber s"

subsection \<open>The constraints of the four inputs\<close>

text \<open>
  Each field of the form is rendered as \<^verbatim>\<open><input type="number" min="0">\<close> inside a form
  that does not switch validation off, so the browser checks the four inputs before it
  sends the submit event that calls \<open>submit\<close>. By the HTML standard the value of a number
  input is the empty string or a valid floating-point number (\<open>valid_float\<close>: an optional
  minus sign, digits with an optional fraction or a fraction alone, an optional exponent).
  An empty value satisfies the constraints, since the input is not required. A value that
  converts to a number must not be below the minimum 0 and must be a whole multiple of
  the default step 1 from the minimum. The conversion rounds to binary64 as \<open>Number\<close> does,
  but a value beyond the binary64 range does not convert to a number at all, and the
  standard states the minimum and the step for converted values only.
\<close>

definition all_digits :: "string \<Rightarrow> bool" where
  "all_digits s = (s \<noteq> [] \<and> list_all (\<lambda>c. c \<in> set ''0123456789'') s)"

definition valid_float :: "string \<Rightarrow> bool" where
  "valid_float str =
     (let s = (if str \<noteq> [] \<and> hd str = CHR ''-'' then tl str else str);
          mant = takeWhile (\<lambda>c. c \<noteq> CHR ''e'' \<and> c \<noteq> CHR ''E'') s;
          ex = dropWhile (\<lambda>c. c \<noteq> CHR ''e'' \<and> c \<noteq> CHR ''E'') s;
          ip = takeWhile (\<lambda>c. c \<noteq> CHR ''.'') mant;
          fp = dropWhile (\<lambda>c. c \<noteq> CHR ''.'') mant
      in (if fp = [] then all_digits ip else (ip = [] \<or> all_digits ip) \<and> all_digits (tl fp))
         \<and> (ex = [] \<or>
              (let xs = tl ex
               in if xs \<noteq> [] \<and> (hd xs = CHR ''-'' \<or> hd xs = CHR ''+'')
                  then all_digits (tl xs) else all_digits xs)))"

fun input_valid :: "jsval \<Rightarrow> bool" where
  "input_valid (JNum n) = is_count n"
| "input_valid (JStr s) =
     (s = [] \<or>
      valid_float s \<and>
        (case StringToNumber s of
           Fin r \<Rightarrow> 0 \<le> r \<and> r = of_int \<lfloor>r\<rfloor>
         | NaN \<Rightarrow> False
         | _ \<Rightarrow> True))"

definition form_valid :: "jsval counters \<Rightarrow> bool" where
  "form_valid f =
     (input_valid (intakes f) \<and> input_valid (interviews f)
      \<and> input_valid (placements f) \<and> input_valid (prospects f))"

section \<open>The gate and the submission\<close>

definition PINCODE :: string where
  "PINCODE = ''8448''"

text \<open>
  The state of \<open>App\<close>: its eight \<open>useState\<close> cells and the module-level \<open>db\<close>, which is
  set once when the module loads (\<open>False\<close> stands for \<open>null\<close>). \<open>date\<close> holds the selected
  date as \<open>new Date(date)\<close> reads it: \<open>None\<close> is the invalid date of an emptied input.
\<close>

record app =
  db :: bool
  authorized :: bool
  pin :: string
  activePerson :: string
  filterRange :: string
  date :: "jsdate option"
  entries :: "entry list"
  loading :: bool
  form :: "jsval counters"

definition zero_form :: "jsval counters" where
  "zero_form =
     \<lparr>intakes = JNum (Fin 0), interviews = JNum (Fin 0),
      placements = JNum (Fin 0), prospects = JNum (Fin 0)\<rparr>"

definition init :: "bool \<Rightarrow> jsdate option \<Rightarrow> app" where
  "init configured today =
     \<lparr>db = configured, authorized = False, pin = [], activePerson = hd CONSULTANTS,
      filterRange = ''week'', date = today, entries = [], loading = True, form = zero_form\<rparr>"

text \<open>
  The bucket \<open>period\<close> of the selected date. The getters of an invalid date return \<open>NaN\<close>.
\<close>

definition period_of :: "jsdate option \<Rightarrow> period" where
  "period_of dt =
     (case dt of
        None \<Rightarrow> \<lparr>period.week = NaN, month = NaN, year = NaN\<rparr>
      | Some d \<Rightarrow>
          \<lparr>period.week = isoWeek d, month = Fin (of_int (getMonth d + 1)),
           year = Fin (of_int (getFullYear d))\<rparr>)"

text \<open>What \<open>submit\<close> does to the outside, in order.\<close>

datatype effect = PreventDefault | Alert string | AddDoc entry | Confetti

text \<open>
  The outcome of one call of \<open>submit\<close>: the effects, how the \<open>async\<close> function completed
  (\<open>Inl\<close> is a rejection), and the state of \<open>App\<close> afterwards.
\<close>

record outcome =
  effects :: "effect list"
  completion :: "js_error + unit"
  after :: app

definition payload :: "app \<Rightarrow> jsdate \<Rightarrow> entry" where
  "payload s d =
     \<lparr>intakes = js_or (Number (intakes (form s))) (Fin 0),
      interviews = js_or (Number (interviews (form s))) (Fin 0),
      placements = js_or (Number (placements (form s))) (Fin 0),
      prospects = js_or (Number (prospects (form s))) (Fin 0),
      name = activePerson s,
      week = isoWeek d,
      month = Fin (of_int (getMonth d + 1)),
      year = Fin (of_int (getFullYear d))\<rparr>"

text \<open>
  \<open>submit\<close>, with the store's answer to the append as a parameter: \<open>addDoc p\<close> is \<open>None\<close>
  when the append of \<open>p\<close> is accepted and the reason when it is rejected. On an invalid
  date \<open>d.toISOString()\<close> throws a \<open>RangeError\<close> while the payload is being built.
\<close>

definition submit :: "(entry \<Rightarrow> string option) \<Rightarrow> app \<Rightarrow> outcome" where
  "submit addDoc s =
     (if \<not> authorized s then
        \<lparr>effects = [PreventDefault, Alert ''Enter access code first''],
         completion = Inr (), after = s\<rparr>
      else if \<not> db s then
        \<lparr>effects = [PreventDefault,
           Alert ''Firestore not configured (set VITE_FIREBASE_* env vars) in your host''],
         completion = Inr (), after = s\<rparr>
      else case date s of
        None \<Rightarrow> \<lparr>effects = [PreventDefault], completion = Inl RangeError, after = s\<rparr>
      | Some d \<Rightarrow>
          (case addDoc (payload s d) of
             Some reason \<Rightarrow>
               \<lparr>effects = [PreventDefault, AddDoc (payload s d)],
                completion = Inl (Rejected reason), after = s\<rparr>
           | None \<Rightarrow>
               \<lparr>effects = [PreventDefault, AddDoc (payload s d)]
                  @ (if js_gt (placements (payload s d)) (Fin 0) then [Confetti] else []),
                completion = Inr (), after = s\<lparr>form := zero_form\<rparr>\<rparr>))"

text \<open>
  The events of the rendered page: the effect that runs once the page is mounted, the
  handlers of its controls, and the snapshots of the live subscription, which exists when
  the store is configured. The access-code input and the Unlock button are rendered only
  while \<open>authorized\<close> is false; the form, with its four fields, Save and Reset, only while
  it is true. What the browser checks on the four inputs before a Save reaches \<open>submit\<close>
  is \<open>form_valid\<close> above; \<open>enabled\<close> leaves it out and so allows more runs than the page.
\<close>

datatype event =
    Mounted
  | SetFilterRange string
  | SetDate "jsdate option"
  | SetActivePerson string
  | SetPin string
  | Unlock
  | SetIntakes string
  | SetInterviews string
  | SetPlacements string
  | SetProspects string
  | Save "entry \<Rightarrow> string option"
  | Reset
  | Snapshot "entry list"

fun enabled :: "app \<Rightarrow> event \<Rightarrow> bool" where
  "enabled s (SetPin v) = (\<not> authorized s)"
| "enabled s Unlock = (\<not> authorized s)"
| "enabled s (SetIntakes v) = authorized s"
| "enabled s (SetInterviews v) = authorized s"
| "enabled s (SetPlacements v) = authorized s"
| "enabled s (SetProspects v) = authorized s"
| "enabled s (Save addDoc) = authorized s"
| "enabled s Reset = authorized s"
| "enabled s (SetActivePerson n) = (n \<in> set CONSULTANTS)"
| "enabled s (Snapshot docs) = db s"
| "enabled s ev = True"

fun fire :: "app \<Rightarrow> event \<Rightarrow> app" where
  "fire s Mounted = (if \<not> db s then s\<lparr>loading := False\<rparr> else s)"
| "fire s (SetFilterRange v) = s\<lparr>filterRange := v\<rparr>"
| "fire s (SetDate v) = s\<lparr>date := v\<rparr>"
| "fire s (SetActivePerson n) = s\<lparr>activePerson := n\<rparr>"
| "fire s (SetPin v) = s\<lparr>pin := v\<rparr>"
| "fire s Unlock = s\<lparr>authorized := (pin s = PINCODE)\<rparr>"
| "fire s (SetIntakes v) = s\<lparr>form := (form s)\<lparr>intakes := JStr v\<rparr>\<rparr>"
| "fire s (SetInterviews v) = s\<lparr>form := (form s)\<lparr>interviews := JStr v\<rparr>\<rparr>"
| "fire s (SetPlacements v) = s\<lparr>form := (form s)\<lparr>placements := JStr v\<rparr>\<rparr>"
| "fire s (SetProspects v) = s\<lparr>form := (form s)\<lparr>prospects := JStr v\<rparr>\<rparr>"
| "fire s (Save addDoc) = after (submit addDoc s)"
| "fire s Reset = s\<lparr>form := zero_form\<rparr>"
| "fire s (Snapshot docs) = s\<lparr>entries := docs, loading := False\<rparr>"

text \<open>A run of the page: the events in order, each one enabled when it happens.\<close>

fun run :: "app \<Rightarrow> event list \<Rightarrow> app option" where
  "run s [] = Some s"
| "run s (ev # evs) = (if enabled s ev then run (fire s ev) evs else None)"

section \<open>Example data\<close>

definition mk_entry :: "string \<Rightarrow> real \<Rightarrow> real \<Rightarrow> real \<Rightarrow> real \<Rightarrow> real \<Rightarrow> entry" where
  "mk_entry n w m y i p =
     \<lparr>intakes = Fin i, interviews = Fin 0, placements = Fin p, prospects = Fin 0, name = n,
      week = Fin w, month = Fin m, year = Fin y\<rparr>"

definition ex_period :: period where
  "ex_period = \<lparr>period.week = Fin 10, month = Fin 3, year = Fin 2024\<rparr>"

text \<open>Entries of three weeks of 2024, one entry of 2023, and one of an unknown name.\<close>

definition ex_entries :: "entry list" where
  "ex_entries =
     [mk_entry ''Nick'' 10 3 2024 2 1,
      mk_entry ''Zed'' 10 3 2024 7 7,
      mk_entry ''Marcus'' 11 3 2024 4 0,
      mk_entry ''Nick'' 9 2 2024 1 1,
      mk_entry ''Gea'' 10 3 2023 5 2,
      mk_entry ''Marcus'' 10 3 2024 3 3]"

text \<open>A store that accepts every append, and one that rejects every append.\<close>

definition accepting :: "entry \<Rightarrow> string option" where
  "accepting e = None"

definition rejecting :: "entry \<Rightarrow> string option" where
  "rejecting e = Some ''unavailable''"

text \<open>
  The page on 5 March 2024: locked as it starts; unlocked with counts in three fields and
  one field emptied; and unlocked with two fields holding valid floating-point numbers
  beyond the binary64 range.
\<close>

definition ex_locked :: app where
  "ex_locked = init True (Some (ymd 2024 3 5))"

definition ex_unlocked :: app where
  "ex_unlocked =
     ex_locked\<lparr>authorized := True,
               form := \<lparr>intakes = JStr ''3'', interviews = JStr ''2'',
                         placements = JStr [], prospects = JStr ''12''\<rparr>\<rparr>"


text \<open>Two members tied on placements and intakes, and two tied on placements only.\<close>

definition mk_totals :: "string \<Rightarrow> real \<Rightarrow> real \<Rightarrow> real \<Rightarrow> totals" where
  "mk_totals n p i c =
     \<lparr>intakes = Fin i, interviews = Fin c, placements = Fin p, prospects = Fin 0, name = n\<rparr>"

section \<open>Properties of filtering\<close>

lemma js_seq_eq: "b \<noteq> NaN \<Longrightarrow> js_seq a b = (a = b)"
  by (auto simp: js_seq_def)

text \<open>
  Claim C3. For a reference bucket of numbers, \<open>week\<close> mode keeps exactly the entries with
  the reference's week and year, \<open>month\<close> mode those with its month and year, \<open>year\<close>
  mode those with its year, and every other mode keeps the whole collection.
\<close>

theorem filtered_modes:
  assumes "period.week p \<noteq> NaN" and "period.month p \<noteq> NaN" and "period.year p \<noteq> NaN"
  shows "filtered es mode p =
     (if mode = ''week''
        then [e \<leftarrow> es. entry.week e = period.week p \<and> entry.year e = period.year p]
      else if mode = ''month''
        then [e \<leftarrow> es. entry.month e = period.month p \<and> entry.year e = period.year p]
      else if mode = ''year''
        then [e \<leftarrow> es. entry.year e = period.year p]
      else es)"
  using assms by (simp add: filtered_def in_range_def [abs_def] js_seq_eq)

theorem filtered_modes_witness:
  "filtered ex_entries ''week'' ex_period
     = [mk_entry ''Nick'' 10 3 2024 2 1, mk_entry ''Zed'' 10 3 2024 7 7,
        mk_entry ''Marcus'' 10 3 2024 3 3]
   \<and> filtered ex_entries ''all'' ex_period = ex_entries"
  using filtered_modes [of ex_period ex_entries "''week''"]
        filtered_modes [of ex_period ex_entries "''all''"]
  by (simp add: ex_period_def ex_entries_def mk_entry_def)

section \<open>Properties of the aggregation\<close>

lemma total_foldl:
  "foldl (\<lambda>acc cur.
            \<lparr>intakes = intakes acc + intakes cur,
             interviews = interviews acc + interviews cur,
             placements = placements acc + placements cur,
             prospects = prospects acc + prospects cur\<rparr>) a agg
   = \<lparr>intakes = intakes a + sum_list (map intakes agg),
      interviews = interviews a + sum_list (map interviews agg),
      placements = placements a + sum_list (map placements agg),
      prospects = prospects a + sum_list (map prospects agg)\<rparr>"
  by (induction agg arbitrary: a) (simp_all add: add.assoc)

lemma total_sum:
  "total agg =
     \<lparr>intakes = sum_list (map intakes agg), interviews = sum_list (map interviews agg),
      placements = sum_list (map placements agg), prospects = sum_list (map prospects agg)\<rparr>"
  by (simp add: total_def total_foldl zero_jsnum_def [symmetric])

lemma base0_eq: "base0 = map (\<lambda>n. (n, zero_totals n)) CONSULTANTS"
  by (simp add: base0_def Object_fromEntries_def CONSULTANTS_def)

lemma distinct_CONSULTANTS: "distinct CONSULTANTS"
  by (simp add: CONSULTANTS_def)

lemma agg_step_map:
  "distinct (map fst al) \<Longrightarrow>
   agg_step e al = map (\<lambda>(k, t). (k, if k = name e then add_entry e t else t)) al"
proof (induction al)
  case Nil
  show ?case by (simp add: agg_step_def)
next
  case (Cons kt al)
  obtain k t where kt: "kt = (k, t)" by (cases kt)
  show ?case
  proof (cases "k = name e")
    case True
    with Cons.prems kt have "name e \<notin> fst ` set al" by simp
    then have "map (\<lambda>(k, t). (k, if k = name e then add_entry e t else t)) al = al"
      by (induction al) auto
    with True kt show ?thesis by (simp add: agg_step_def)
  next
    case False
    from Cons.prems have "distinct (map fst al)" by simp
    from Cons.IH [OF this] False kt show ?thesis
      by (simp add: agg_step_def split: option.splits)
  qed
qed

lemma fold_agg_step:
  "distinct (map fst al) \<Longrightarrow>
   fold agg_step es al = map (\<lambda>(k, t). (k, fold add_entry [e \<leftarrow> es. name e = k] t)) al"
proof (induction es arbitrary: al)
  case Nil
  show ?case by simp
next
  case (Cons e es)
  let ?g = "\<lambda>(k, t). (k, if k = name e then add_entry e t else t)"
  have step: "agg_step e al = map ?g al"
    using Cons.prems by (rule agg_step_map)
  have keys: "map fst (map ?g al) = map fst al"
    by (induction al) auto
  have "distinct (map fst (map ?g al))"
    by (subst keys) (rule Cons.prems)
  from Cons.IH [OF this] step show ?case
    by (auto simp: case_prod_unfold)
qed

text \<open>The totals of one member: the entries bearing the member's name, added in order.\<close>

lemma aggregated_eq:
  "aggregated flt =
     map (\<lambda>n. fold add_entry [e \<leftarrow> flt. name e = n] (zero_totals n)) CONSULTANTS"
proof -
  have "distinct (map fst base0)"
    by (simp add: base0_eq comp_def distinct_CONSULTANTS)
  then show ?thesis
    by (simp add: aggregated_def Object_values_def fold_agg_step)
       (simp add: base0_eq comp_def)
qed

lemma name_fold_add_entry: "name (fold add_entry es t) = name t"
  by (induction es arbitrary: t) (simp_all add: add_entry_def)

lemma names_aggregated: "map name (aggregated flt) = CONSULTANTS"
  by (simp add: aggregated_eq comp_def name_fold_add_entry zero_totals_def)

text \<open>
  The totals of a member depend on the selected entries only through the member's own
  entries, in their order: entries of other names may arrive anywhere between them.
\<close>

lemma aggregated_own_entries:
  assumes "\<forall>n \<in> set CONSULTANTS. [e \<leftarrow> xs. name e = n] = [e \<leftarrow> ys. name e = n]"
  shows "aggregated xs = aggregated ys"
  using assms by (simp add: aggregated_eq)

text \<open>
  Claim C4. For every entry collection and filter, each field of the grand total is the sum
  of that field over the per-member totals.
\<close>

theorem total_is_sum_of_members:
  "total (aggregated (filtered es mode p)) =
     \<lparr>intakes = (\<Sum>t \<leftarrow> aggregated (filtered es mode p). intakes t),
      interviews = (\<Sum>t \<leftarrow> aggregated (filtered es mode p). interviews t),
      placements = (\<Sum>t \<leftarrow> aggregated (filtered es mode p). placements t),
      prospects = (\<Sum>t \<leftarrow> aggregated (filtered es mode p). prospects t)\<rparr>"
  by (rule total_sum)

theorem total_is_sum_of_members_witness:
  "total (aggregated (filtered ex_entries ''week'' ex_period))
     = \<lparr>intakes = Fin 5, interviews = Fin 0, placements = Fin 4, prospects = Fin 0\<rparr>"
proof -
  have "aggregated (filtered ex_entries ''week'' ex_period)
          = [mk_totals ''Marcus'' 3 3 0, mk_totals ''Lisanna'' 0 0 0, mk_totals ''Nick'' 1 2 0,
             mk_totals ''Gea'' 0 0 0, mk_totals ''Dion'' 0 0 0, mk_totals ''Sander'' 0 0 0,
             mk_totals ''Yde'' 0 0 0]"
    by code_simp
  with total_is_sum_of_members [of ex_entries "''week''" ex_period] show ?thesis
    by (simp add: mk_totals_def zero_jsnum_def)
qed

text \<open>
  Claim C5. For every entry collection and filter, the aggregated output lists exactly the
  roster: one totals record per member, seven in all, in declaration order. The order in
  which the entries arrive has no part in it: any other order of the same entries gives
  the same list of names.
\<close>

theorem aggregated_roster_order:
  "map name (aggregated (filtered es mode p)) = CONSULTANTS
   \<and> distinct (map name (aggregated (filtered es mode p)))
   \<and> length (aggregated (filtered es mode p)) = 7
   \<and> (mset es' = mset es \<longrightarrow>
        map name (aggregated (filtered es' mode p))
          = map name (aggregated (filtered es mode p)))"
proof -
  have n: "map name (aggregated flt) = CONSULTANTS" for flt
    by (rule names_aggregated)
  have "length (aggregated (filtered es mode p))
          = length (map name (aggregated (filtered es mode p)))"
    by simp
  also have "\<dots> = length CONSULTANTS"
    by (simp only: n)
  also have "\<dots> = 7"
    by (simp add: CONSULTANTS_def)
  finally show ?thesis
    by (simp add: n distinct_CONSULTANTS)
qed

theorem aggregated_roster_order_witness:
  "map name (aggregated (filtered ex_entries ''week'' ex_period))
     = [''Marcus'', ''Lisanna'', ''Nick'', ''Gea'', ''Dion'', ''Sander'', ''Yde'']
   \<and> map name (aggregated (filtered (rev ex_entries) ''week'' ex_period))
     = [''Marcus'', ''Lisanna'', ''Nick'', ''Gea'', ''Dion'', ''Sander'', ''Yde'']"
proof -
  have "mset (rev ex_entries) = mset ex_entries" by simp
  with aggregated_roster_order [of ex_entries "''week''" ex_period "rev ex_entries"]
  show ?thesis by (simp add: CONSULTANTS_def)
qed

text \<open>
  Claim C6. Entries whose name is not on the roster are skipped: every record of the
  aggregated output bears a roster name, and removing any entries with unknown names
  from the collection changes neither the per-member totals nor the grand total.
\<close>

theorem unknown_names_skipped:
  assumes "\<forall>e \<in> set es. removed e \<longrightarrow> name e \<notin> set CONSULTANTS"
  shows "(\<forall>t \<in> set (aggregated (filtered es mode p)). name t \<in> set CONSULTANTS)
       \<and> aggregated (filtered [e \<leftarrow> es. \<not> removed e] mode p)
           = aggregated (filtered es mode p)
       \<and> total (aggregated (filtered [e \<leftarrow> es. \<not> removed e] mode p))
           = total (aggregated (filtered es mode p))"
proof -
  let ?flt = "filtered es mode p"
  have names: "name ` set (aggregated ?flt) = set CONSULTANTS"
    using names_aggregated [of ?flt] by (metis set_map)
  have comm: "filtered [e \<leftarrow> es. \<not> removed e] mode p = [e \<leftarrow> ?flt. \<not> removed e]"
    by (auto simp: filtered_def intro: filter_cong)
  have keep: "[e \<leftarrow> ?flt. \<not> removed e \<and> name e = n] = [e \<leftarrow> ?flt. name e = n]"
    if "n \<in> set CONSULTANTS" for n
    using that assms by (auto simp: filtered_def intro: filter_cong)
  have same: "aggregated (filtered [e \<leftarrow> es. \<not> removed e] mode p) = aggregated ?flt"
    by (simp add: comm aggregated_eq keep cong: map_cong)
  from names same show ?thesis by auto
qed

theorem unknown_names_skipped_witness:
  "''Zed'' \<notin> name ` set (aggregated (filtered ex_entries ''week'' ex_period))
   \<and> aggregated (filtered [e \<leftarrow> ex_entries. name e \<noteq> ''Zed''] ''week'' ex_period)
       = aggregated (filtered ex_entries ''week'' ex_period)
   \<and> total (aggregated (filtered [e \<leftarrow> ex_entries. name e \<noteq> ''Zed''] ''week'' ex_period))
       = total (aggregated (filtered ex_entries ''week'' ex_period))"
proof -
  have h: "\<forall>e \<in> set ex_entries. name e = ''Zed'' \<longrightarrow> name e \<notin> set CONSULTANTS"
    by (simp add: CONSULTANTS_def)
  have z: "''Zed'' \<notin> set CONSULTANTS"
    by (simp add: CONSULTANTS_def)
  from unknown_names_skipped [OF h, of "''week''" ex_period] z show ?thesis
    by auto
qed

section \<open>Properties of the calendar bucketing\<close>

subsection \<open>Years and day numbers\<close>

lemma div_lower:
  fixes a k :: int
  assumes "0 < k"
  shows "k * (a div k) \<le> a"
proof -
  have "a = k * (a div k) + a mod k" by simp
  moreover have "0 \<le> a mod k" using assms by simp
  ultimately show ?thesis by linarith
qed

lemma div_upper:
  fixes a k :: int
  assumes "0 < k"
  shows "a < k * (a div k) + k"
proof -
  have "a = k * (a div k) + a mod k" by simp
  moreover have "a mod k < k" using assms by simp
  ultimately show ?thesis by linarith
qed

lemma DayFromYear_lower: "146097 * (y - 1970) - 506 \<le> 400 * DayFromYear y"
proof -
  have "y - 1969 < 4 * ((y - 1969) div 4) + 4"
    by (rule div_upper) simp
  moreover have "100 * ((y - 1901) div 100) \<le> y - 1901"
    by (rule div_lower) simp
  moreover have "y - 1601 < 400 * ((y - 1601) div 400) + 400"
    by (rule div_upper) simp
  ultimately show ?thesis
    unfolding DayFromYear_def by (simp add: algebra_simps)
qed

lemma DayFromYear_upper: "400 * DayFromYear y \<le> 146097 * (y - 1970) + 589"
proof -
  have "4 * ((y - 1969) div 4) \<le> y - 1969"
    by (rule div_lower) simp
  moreover have "y - 1901 < 100 * ((y - 1901) div 100) + 100"
    by (rule div_upper) simp
  moreover have "400 * ((y - 1601) div 400) \<le> y - 1601"
    by (rule div_lower) simp
  ultimately show ?thesis
    unfolding DayFromYear_def by (simp add: algebra_simps)
qed

lemma YearFromDay_bracket:
  "DayFromYear (YearFromDay n) \<le> n \<and> n < DayFromYear (YearFromDay n + 1)"
proof -
  define y where "y = 1970 + (400 * n) div 146097"
  have "146097 * ((400 * n) div 146097) \<le> 400 * n"
    by (rule div_lower) simp
  then have b1: "146097 * (y - 1970) \<le> 400 * n"
    unfolding y_def by simp
  have "400 * n < 146097 * ((400 * n) div 146097) + 146097"
    by (rule div_upper) simp
  then have b2: "400 * n < 146097 * (y - 1970) + 146097"
    unfolding y_def by simp
  have lo: "DayFromYear (y - 1) \<le> n"
    using DayFromYear_upper [of "y - 1"] b1 by (simp add: algebra_simps)
  have hi: "n < DayFromYear (y + 2)"
    using DayFromYear_lower [of "y + 2"] b2 by (simp add: algebra_simps)
  have "DayFromYear (YearFromDay n) \<le> n"
    using lo by (simp add: YearFromDay_def y_def [symmetric] Let_def)
  moreover have "n < DayFromYear (YearFromDay n + 1)"
    using hi by (auto simp add: YearFromDay_def y_def [symmetric] Let_def add.commute)
  ultimately show ?thesis ..
qed

lemma add1_div:
  fixes a k :: int
  assumes "0 < k"
  shows "(a + 1) div k = a div k + (if (a + 1) mod k = 0 then 1 else 0)"
proof (cases "a mod k + 1 = k")
  case True
  have "a = k * (a div k) + a mod k" by simp
  with True have "a + 1 = k * (a div k) + k" by linarith
  then have e: "a + 1 = k * (a div k + 1) + 0"
    by (simp add: algebra_simps)
  from int_div_pos_eq [OF e] int_mod_pos_eq [OF e] assms show ?thesis by simp
next
  case False
  have m: "a mod k < k" "0 \<le> a mod k" using assms by simp_all
  with False have r: "0 \<le> a mod k + 1" "a mod k + 1 < k" by linarith+
  from m have nz: "a mod k + 1 \<noteq> 0" by linarith
  have "a = k * (a div k) + a mod k" by simp
  then have e: "a + 1 = k * (a div k) + (a mod k + 1)" by linarith
  from int_div_pos_eq [OF e r] int_mod_pos_eq [OF e r] nz show ?thesis by simp
qed

lemma add1_mod:
  fixes a k :: int
  assumes "0 < k"
  shows "(a + 1) mod k = (if a mod k + 1 = k then 0 else a mod k + 1)"
proof (cases "a mod k + 1 = k")
  case True
  have "a = k * (a div k) + a mod k" by simp
  with True have "a + 1 = k * (a div k) + k" by linarith
  then have e: "a + 1 = k * (a div k + 1) + 0"
    by (simp add: algebra_simps)
  from int_mod_pos_eq [OF e] assms True show ?thesis by simp
next
  case False
  have m: "a mod k < k" "0 \<le> a mod k" using assms by simp_all
  with False have r: "0 \<le> a mod k + 1" "a mod k + 1 < k" by linarith+
  have "a = k * (a div k) + a mod k" by simp
  then have e: "a + 1 = k * (a div k) + (a mod k + 1)" by linarith
  from int_mod_pos_eq [OF e r] False show ?thesis by simp
qed

lemma mod_shift:
  fixes y k c :: int
  shows "(y - k * c) mod k = 0 \<longleftrightarrow> y mod k = 0"
  using mod_mult_self1 [of y "- c" k] by (simp add: algebra_simps)

lemma mod_coarser:
  fixes y j k :: int
  assumes "j dvd k" and "y mod k = 0"
  shows "y mod j = 0"
proof -
  from assms(2) have "k dvd y" by (simp add: mod_eq_0_iff_dvd)
  with assms(1) have "j dvd y" by (rule dvd_trans)
  then show ?thesis by (simp add: mod_eq_0_iff_dvd)
qed

lemma DayFromYear_Suc: "DayFromYear (y + 1) = DayFromYear y + DaysInYear y"
proof -
  have d4: "(y + 1 - 1969) div 4 = (y - 1969) div 4 + (if y mod 4 = 0 then 1 else 0)"
    using add1_div [of 4 "y - 1969"] mod_shift [of y 4 492] by (simp add: algebra_simps)
  have d100: "(y + 1 - 1901) div 100 = (y - 1901) div 100 + (if y mod 100 = 0 then 1 else 0)"
    using add1_div [of 100 "y - 1901"] mod_shift [of y 100 19] by (simp add: algebra_simps)
  have d400: "(y + 1 - 1601) div 400 = (y - 1601) div 400 + (if y mod 400 = 0 then 1 else 0)"
    using add1_div [of 400 "y - 1601"] mod_shift [of y 400 4] by (simp add: algebra_simps)
  have m1: "y mod 100 = 0 \<Longrightarrow> y mod 4 = 0"
    by (rule mod_coarser [of 4 100]) simp_all
  have m2: "y mod 400 = 0 \<Longrightarrow> y mod 100 = 0"
    by (rule mod_coarser [of 100 400]) simp_all
  show ?thesis
    unfolding DayFromYear_def DaysInYear_def d4 d100 d400 using m1 m2 by auto
qed



lemma DaysInYear_bounds: "365 \<le> DaysInYear y \<and> DaysInYear y \<le> 366"
  by (simp add: DaysInYear_def)

lemma DayFromYear_mono:
  assumes "y \<le> z"
  shows "DayFromYear y \<le> DayFromYear z"
  using assms
proof (induction z rule: int_ge_induct)
  case base
  show ?case by simp
next
  case (step i)
  from DaysInYear_bounds [of i] have "DayFromYear i \<le> DayFromYear (i + 1)"
    by (simp add: DayFromYear_Suc)
  with step.IH show ?case by linarith
qed

lemma YearFromDay_unique:
  assumes "DayFromYear y \<le> n" and "n < DayFromYear (y + 1)"
  shows "YearFromDay n = y"
proof (rule antisym)
  show "YearFromDay n \<le> y"
  proof (rule ccontr)
    assume "\<not> YearFromDay n \<le> y"
    then have "y + 1 \<le> YearFromDay n" by simp
    then have "DayFromYear (y + 1) \<le> DayFromYear (YearFromDay n)" by (rule DayFromYear_mono)
    with YearFromDay_bracket [of n] assms(2) show False by linarith
  qed
  show "y \<le> YearFromDay n"
  proof (rule ccontr)
    assume "\<not> y \<le> YearFromDay n"
    then have "YearFromDay n + 1 \<le> y" by simp
    then have "DayFromYear (YearFromDay n + 1) \<le> DayFromYear y" by (rule DayFromYear_mono)
    with YearFromDay_bracket [of n] assms(1) show False by linarith
  qed
qed

lemma YearFromDay_greatest: "DayFromYear y \<le> n \<longleftrightarrow> y \<le> YearFromDay n"
proof
  assume "y \<le> YearFromDay n"
  then have "DayFromYear y \<le> DayFromYear (YearFromDay n)" by (rule DayFromYear_mono)
  with YearFromDay_bracket [of n] show "DayFromYear y \<le> n" by linarith
next
  assume le: "DayFromYear y \<le> n"
  show "y \<le> YearFromDay n"
  proof (rule ccontr)
    assume "\<not> y \<le> YearFromDay n"
    then have "YearFromDay n + 1 \<le> y" by simp
    then have "DayFromYear (YearFromDay n + 1) \<le> DayFromYear y" by (rule DayFromYear_mono)
    with YearFromDay_bracket [of n] le show False by linarith
  qed
qed


subsection \<open>Whole days as time values\<close>

lemma Day_whole [simp]: "Day (n * msPerDay) = n"
  by (simp add: Day_def msPerDay_def)

lemma TimeWithinDay_whole [simp]: "TimeWithinDay (n * msPerDay) = 0"
  by (simp add: TimeWithinDay_def msPerDay_def)

lemma MonthFromTime_range: "0 \<le> MonthFromTime t \<and> MonthFromTime t \<le> 11"
  by (simp add: MonthFromTime_def Let_def)

lemma MakeDay_fields:
  "MakeDay (YearFromTime t) (MonthFromTime t) (DateFromTime t + k) = Day t + k"
proof -
  from MonthFromTime_range [of t]
  have "MonthFromTime t div 12 = 0" "MonthFromTime t mod 12 = MonthFromTime t"
    by simp_all
  then show ?thesis
    by (simp add: MakeDay_def DateFromTime_def DayWithinYear_def InLeapYear_def)
qed

lemma setUTCDate_shift:
  "setUTCDate (n * msPerDay) (DateFromTime (n * msPerDay) + k) = TimeClip ((n + k) * msPerDay)"
  by (simp add: setUTCDate_def MakeDay_fields MakeDate_def)

lemma shift_to_thursday:
  "n + 4 - (if (n + 4) mod 7 = 0 then 7 else (n + 4) mod 7) = thursday_of_week n"
proof -
  have r: "0 \<le> (n + 3) mod 7" "(n + 3) mod 7 < 7" by simp_all
  from add1_mod [of 7 "n + 3"]
  have "(n + 4) mod 7 = (if (n + 3) mod 7 + 1 = 7 then 0 else (n + 3) mod 7 + 1)"
    by (simp add: algebra_simps)
  with r show ?thesis
    unfolding thursday_of_week_def by (simp split: if_splits)
qed

lemma thursday_near: "n - 3 \<le> thursday_of_week n \<and> thursday_of_week n \<le> n + 3"
  unfolding thursday_of_week_def by presburger

lemma TimeClip_whole:
  "\<bar>n\<bar> \<le> 100000000 \<Longrightarrow> TimeClip (n * msPerDay) = Some (n * msPerDay)"
  by (simp add: TimeClip_def msPerDay_def)

subsection \<open>Calendar dates\<close>

lemma upto_months: "[0..11] = [0, 1, 2, 3, 4, 5, 6, 7, 8, 9, 10, 11 :: int]"
  by code_simp

lemma month_table:
  "\<forall>m \<in> set [0, 1, 2, 3, 4, 5, 6, 7, 8, 9, 10, 11].
     0 \<le> month_start l m
     \<and> month_start l m
         + [31, if l then 29 else 28, 31, 30, 31, 30, 31, 31, 30, 31, 30, 31] ! nat m
       \<le> (if l then 366 else 365)"
  by (simp add: month_start_def)

lemma valid_date_within_year:
  assumes "valid_date d"
  shows "DayFromYear (getFullYear d) \<le> civil_day d
       \<and> civil_day d < DayFromYear (getFullYear d + 1)"
proof -
  let ?l = "DaysInYear (getFullYear d) = 366"
  from assms have "getMonth d \<in> set [0..11]"
    unfolding valid_date_def by simp
  then have m: "getMonth d \<in> set [0, 1, 2, 3, 4, 5, 6, 7, 8, 9, 10, 11]"
    unfolding upto_months .
  from assms have dt: "1 \<le> getDate d" "getDate d \<le> DaysInMonth (getFullYear d) (getMonth d)"
    unfolding valid_date_def by simp_all
  from month_table [of ?l] m
  have "0 \<le> month_start ?l (getMonth d)
     \<and> month_start ?l (getMonth d) + DaysInMonth (getFullYear d) (getMonth d)
         \<le> (if ?l then 366 else 365)"
    unfolding DaysInMonth_def by blast
  moreover have "(if ?l then 366 else 365) = DaysInYear (getFullYear d)"
    using DaysInYear_bounds [of "getFullYear d"] by (simp add: DaysInYear_def)
  ultimately show ?thesis
    using dt unfolding civil_day_def DayFromYear_Suc by linarith
qed



lemma civil_day_range:
  assumes "valid_date d" and "- 271819 \<le> getFullYear d" and "getFullYear d \<le> 275759"
  shows "- 99999381 \<le> civil_day d \<and> civil_day d \<le> 99999745"
proof -
  have "146097 * getFullYear d - 287811596 \<le> 400 * DayFromYear (getFullYear d)"
    using DayFromYear_lower [of "getFullYear d"] by (simp add: algebra_simps)
  with assms(2) have "- 99999381 \<le> DayFromYear (getFullYear d)" by linarith
  moreover
  have "400 * DayFromYear (getFullYear d + 1) \<le> 146097 * getFullYear d - 287664404"
    using DayFromYear_upper [of "getFullYear d + 1"] by (simp add: algebra_simps)
  with assms(3) have "DayFromYear (getFullYear d + 1) \<le> 99999746" by linarith
  ultimately show ?thesis
    using valid_date_within_year [OF assms(1)] by linarith
qed

subsection \<open>\<open>isoWeek\<close> against the specification\<close>

lemma week_quotient:
  "(real_of_int (a * msPerDay - b * msPerDay) / 86400000 + 1) / 7 = (real_of_int (a - b) + 1) / 7"
proof -
  have "a * msPerDay - b * msPerDay = (a - b) * 86400000"
    by (simp add: msPerDay_def algebra_simps)
  then show ?thesis by simp
qed

lemma isoWeek_refines:
  assumes v: "valid_date d"
    and lo: "- 271819 \<le> getFullYear d" and hi: "getFullYear d \<le> 275759"
    and y2: "\<not> (0 \<le> getFullYear d \<and> getFullYear d \<le> 99)"
    and t2: "\<not> (0 \<le> iso_week_year d \<and> iso_week_year d \<le> 99)"
  shows "isoWeek d = Fin (of_int (iso_week d))"
proof -
  define n where "n = civil_day d"
  define th where "th = thursday_of_week n"
  define ty where "ty = YearFromDay th"
  from civil_day_range [OF v lo hi] have nr: "- 99999381 \<le> n" "n \<le> 99999745"
    by (simp_all add: n_def)
  from thursday_near [of n] have tn: "n - 3 \<le> th" "th \<le> n + 3"
    by (simp_all add: th_def)
  from v have "getMonth d div 12 = 0" "getMonth d mod 12 = getMonth d"
    by (simp_all add: valid_date_def)
  then have md: "MakeDay (getFullYear d) (getMonth d) (getDate d) = n"
    by (simp add: MakeDay_def n_def civil_day_def Let_def)
  have "\<bar>n\<bar> \<le> 100000000" using nr by linarith
  then have utc: "Date_UTC (getFullYear d) (getMonth d) (getDate d) = Some (n * msPerDay)"
    using y2 by (auto simp add: Date_UTC_def md MakeDate_def TimeClip_whole)
  have wd: "WeekDay (n * msPerDay) = (n + 4) mod 7"
    by (simp add: WeekDay_def)
  define day where "day = (if WeekDay (n * msPerDay) = 0 then 7 else WeekDay (n * msPerDay))"
  have e: "n + (4 - day) = th"
    using shift_to_thursday [of n] by (simp add: th_def day_def wd split: if_splits)
  have tr: "\<bar>th\<bar> \<le> 100000000" using nr tn by linarith
  have "setUTCDate (n * msPerDay) (DateFromTime (n * msPerDay) + (4 - day))
          = TimeClip ((n + (4 - day)) * msPerDay)"
    by (rule setUTCDate_shift)
  also have "\<dots> = TimeClip (th * msPerDay)"
    by (simp only: e)
  also have "\<dots> = Some (th * msPerDay)"
    using tr by (rule TimeClip_whole)
  finally have shifted:
    "setUTCDate (n * msPerDay) (DateFromTime (n * msPerDay) + 4 - day) = Some (th * msPerDay)"
    by (simp only: add_diff_eq)
  have yft: "YearFromTime (th * msPerDay) = ty"
    by (simp add: YearFromTime_def ty_def)
  from YearFromDay_bracket [of th] DaysInYear_bounds [of ty]
  have "DayFromYear ty \<le> th" "th < DayFromYear ty + 366"
    by (simp_all add: ty_def [symmetric] DayFromYear_Suc)
  with nr tn have "\<bar>DayFromYear ty\<bar> \<le> 100000000" by linarith
  moreover have "MakeDay ty 0 1 = DayFromYear ty"
    by (simp add: MakeDay_def month_start_def)
  moreover from t2 have "\<not> (0 \<le> ty \<and> ty \<le> 99)"
    by (simp add: iso_week_year_def ty_def th_def n_def)
  ultimately have ys: "Date_UTC ty 0 1 = Some (DayFromYear ty * msPerDay)"
    by (auto simp add: Date_UTC_def MakeDate_def TimeClip_whole)
  have "isoWeek d
      = (case setUTCDate (n * msPerDay) (DateFromTime (n * msPerDay) + 4 - day) of
           None \<Rightarrow> NaN
         | Some tmp' \<Rightarrow>
             (case Date_UTC (YearFromTime tmp') 0 1 of
                None \<Rightarrow> NaN
              | Some yearStart \<Rightarrow>
                  Fin (of_int \<lceil>(real_of_int (tmp' - yearStart) / 86400000 + 1) / 7\<rceil>)))"
    unfolding isoWeek_def utc day_def by (simp only: option.case Let_def)
  also have "\<dots>
      = Fin (of_int \<lceil>(real_of_int (th * msPerDay - DayFromYear ty * msPerDay) / 86400000 + 1) / 7\<rceil>)"
    by (simp only: shifted option.case yft ys)
  also have "\<dots> = Fin (of_int (iso_week d))"
    by (simp only: week_quotient) (simp add: iso_week_def Let_def ty_def th_def n_def)
  finally show ?thesis .
qed

subsection \<open>The week number counts Thursdays\<close>

text \<open>
  The specification's formula is the week number of ISO 8601: the day it shifts to is the
  Thursday of the date's week, and going back one week less than the week number from it
  lands on the first Thursday of that Thursday's year, so that week 1 is the week of the
  year's first Thursday and there are at most 53 weeks.
\<close>

lemma ceiling_week: "\<lceil>(real_of_int k + 1) / 7\<rceil> = k div 7 + 1"
proof (rule ceiling_unique)
  have "7 * (k div 7) \<le> k" by (rule div_lower) simp
  then have "real_of_int (7 * (k div 7)) \<le> real_of_int k" by (simp only: of_int_le_iff)
  then show "real_of_int (k div 7 + 1) - 1 < (real_of_int k + 1) / 7" by simp
  have "k < 7 * (k div 7) + 7" by (rule div_upper) simp
  then have "k + 1 \<le> 7 * (k div 7) + 7" by simp
  then have "real_of_int (k + 1) \<le> real_of_int (7 * (k div 7) + 7)" by (simp only: of_int_le_iff)
  then show "(real_of_int k + 1) / 7 \<le> real_of_int (k div 7 + 1)" by simp
qed

lemma thursday_is_thursday: "(thursday_of_week n + 4) mod 7 = 4"
  unfolding thursday_of_week_def by presburger

lemma iso_week_first_thursday:
  fixes d :: jsdate
  defines "th \<equiv> thursday_of_week (civil_day d)"
  defines "jan1 \<equiv> DayFromYear (iso_week_year d)"
  shows "1 \<le> iso_week d \<and> iso_week d \<le> 53
       \<and> jan1 \<le> th - 7 * (iso_week d - 1) \<and> th - 7 * (iso_week d - 1) \<le> jan1 + 6"
proof -
  define k where "k = th - jan1"
  from YearFromDay_bracket [of th] DaysInYear_bounds [of "YearFromDay th"]
  have k: "0 \<le> k" "k \<le> 365"
    by (simp_all add: k_def jan1_def iso_week_year_def th_def DayFromYear_Suc)
  define q where "q = k div 7"
  have w: "iso_week d = q + 1"
    unfolding iso_week_def Let_def ceiling_week
    by (simp add: q_def k_def jan1_def iso_week_year_def th_def)
  have "7 * (k div 7) \<le> k" by (rule div_lower) simp
  then have q1: "7 * q \<le> k" by (simp add: q_def)
  have "k < 7 * (k div 7) + 7" by (rule div_upper) simp
  then have q2: "k < 7 * q + 7" by (simp add: q_def)
  have s: "th - 7 * (iso_week d - 1) = th - 7 * q" by (simp add: w)
  from k q1 q2 have "0 \<le> q" "q \<le> 52" by linarith+
  moreover from q1 q2 have "jan1 \<le> th - 7 * q" "th - 7 * q \<le> jan1 + 6"
    unfolding k_def by linarith+
  ultimately show ?thesis
    unfolding s by (simp add: w)
qed

lemma civil_day_year: "valid_date d \<Longrightarrow> YearFromDay (civil_day d) = getFullYear d"
  using valid_date_within_year [of d] by (intro YearFromDay_unique) simp_all

text \<open>
  Claim C1, as the code has it. For every valid calendar date of the years -271819 to
  275759 such that neither its own year nor the year of the Thursday of its week lies in
  0..99, \<open>isoWeek\<close> returns the ISO week number: the date is shifted to the Thursday of
  its Monday-start week, and the days since 1 January of that Thursday's year, plus one,
  are divided by seven and rounded up. In particular 1 January 2023 is in week 52,
  1 January 2024 in week 1 and 4 January 2021 in week 1.
\<close>

theorem isoWeek_iso_week:
  "(\<forall>d. valid_date d \<and> - 271819 \<le> getFullYear d \<and> getFullYear d \<le> 275759
        \<and> \<not> (0 \<le> getFullYear d \<and> getFullYear d \<le> 99)
        \<and> \<not> (0 \<le> iso_week_year d \<and> iso_week_year d \<le> 99)
        \<longrightarrow> isoWeek d = Fin (of_int (iso_week d)))
   \<and> isoWeek (ymd 2023 1 1) = Fin 52
   \<and> isoWeek (ymd 2024 1 1) = Fin 1
   \<and> isoWeek (ymd 2021 1 4) = Fin 1"
proof (intro conjI allI impI)
  fix d
  assume "valid_date d \<and> - 271819 \<le> getFullYear d \<and> getFullYear d \<le> 275759
        \<and> \<not> (0 \<le> getFullYear d \<and> getFullYear d \<le> 99)
        \<and> \<not> (0 \<le> iso_week_year d \<and> iso_week_year d \<le> 99)"
  then show "isoWeek d = Fin (of_int (iso_week d))"
    by (intro isoWeek_refines) simp_all
next
  show "isoWeek (ymd 2023 1 1) = Fin 52" by code_simp
  show "isoWeek (ymd 2024 1 1) = Fin 1" by code_simp
  show "isoWeek (ymd 2021 1 4) = Fin 1" by code_simp
qed

theorem isoWeek_iso_week_witness:
  "valid_date (ymd 2026 11 3) \<and> iso_week_year (ymd 2026 11 3) = 2026
   \<and> iso_week (ymd 2026 11 3) = 45 \<and> isoWeek (ymd 2026 11 3) = Fin 45"
proof -
  have v: "valid_date (ymd 2026 11 3)" by code_simp
  have y: "iso_week_year (ymd 2026 11 3) = 2026" by code_simp
  have w: "iso_week (ymd 2026 11 3) = 45" by code_simp
  have g: "getFullYear (ymd 2026 11 3) = 2026" by (simp add: ymd_def)
  from isoWeek_iso_week have "isoWeek (ymd 2026 11 3) = Fin (of_int (iso_week (ymd 2026 11 3)))"
    using v y g by simp
  with v y w show ?thesis by simp
qed

text \<open>
  Claim C1 as stated fails in the years that \<open>Date.UTC\<close> reads as 19xx: 2 January of the
  year 50 is a Sunday and belongs to week 52, but \<open>isoWeek\<close> computes the week of
  2 January 1950, a Monday, which is week 1.
\<close>

theorem isoWeek_year_50_counterexample:
  "valid_date (ymd 50 1 2) \<and> iso_week (ymd 50 1 2) = 52 \<and> isoWeek (ymd 50 1 2) = Fin 1"
  by code_simp

section \<open>Properties of the ranking\<close>

lemma compare_totals_fin:
  assumes "fin_keys x" and "fin_keys y"
  shows "compare_totals y x =
           (if sort_key x = sort_key y then Inl ReferenceError
            else if fst (sort_key x) \<noteq> fst (sort_key y)
            then Inr (Fin (fst (sort_key x) - fst (sort_key y)))
            else Inr (Fin (snd (sort_key x) - snd (sort_key y))))"
proof -
  from assms obtain px ix py iy where
    "placements x = Fin px" "intakes x = Fin ix" "placements y = Fin py" "intakes y = Fin iy"
    unfolding fin_keys_def
    by (cases "placements x"; cases "intakes x"; cases "placements y"; cases "intakes y") simp_all
  then show ?thesis
    by (auto simp add: compare_totals_def sort_key_def Let_def)
qed

lemma ranks_before_trans: "ranks_before a b \<Longrightarrow> ranks_before b c \<Longrightarrow> ranks_before a c"
  unfolding ranks_before_def by auto

lemma ranks_before_key: "ranks_before a b \<Longrightarrow> sort_key a \<noteq> sort_key b"
  unfolding ranks_before_def by auto

lemma ranks_total: "sort_key a \<noteq> sort_key b \<Longrightarrow> ranks_before a b \<or> ranks_before b a"
  unfolding ranks_before_def by (auto simp: prod_eq_iff)

lemma sort_insert_fin:
  assumes "fin_keys x" and "list_all fin_keys rs" and "sorted_wrt (\<lambda>a b. ranks_before b a) rs"
  shows "(sort_key x \<in> sort_key ` set rs \<longrightarrow>
            sort_insert compare_totals x rs = Inl ReferenceError)
       \<and> (sort_key x \<notin> sort_key ` set rs \<longrightarrow>
            (\<exists>rs'. sort_insert compare_totals x rs = Inr rs'
                   \<and> sorted_wrt (\<lambda>a b. ranks_before b a) rs'
                   \<and> mset rs' = add_mset x (mset rs)))"
  using assms(2,3)
proof (induction rs)
  case Nil
  show ?case by simp
next
  case (Cons y rs)
  from Cons.prems have fy: "fin_keys y" and frs: "list_all fin_keys rs"
    and srs: "sorted_wrt (\<lambda>a b. ranks_before b a) rs"
    and above: "\<forall>z \<in> set rs. ranks_before z y"
    by simp_all
  note IH = Cons.IH [OF frs srs]
  note cmp = compare_totals_fin [OF assms(1) fy]
  consider (tie) "sort_key x = sort_key y"
    | (up) "sort_key x \<noteq> sort_key y" "ranks_before x y"
    | (stay) "sort_key x \<noteq> sort_key y" "ranks_before y x"
    using ranks_total by blast
  then show ?case
  proof cases
    case tie
    then show ?thesis by (simp add: cmp)
  next
    case up
    then have gt: "compare_totals y x = Inr (Fin (fst (sort_key x) - fst (sort_key y)))
                     \<and> js_gt (Fin (fst (sort_key x) - fst (sort_key y))) (Fin 0)
                 \<or> compare_totals y x = Inr (Fin (snd (sort_key x) - snd (sort_key y)))
                     \<and> js_gt (Fin (snd (sort_key x) - snd (sort_key y))) (Fin 0)"
      unfolding cmp ranks_before_def by auto
    show ?thesis
    proof (intro conjI impI)
      assume "sort_key x \<in> sort_key ` set (y # rs)"
      with up(1) have "sort_key x \<in> sort_key ` set rs" by auto
      with IH have "sort_insert compare_totals x rs = Inl ReferenceError" by blast
      with gt show "sort_insert compare_totals x (y # rs) = Inl ReferenceError" by auto
    next
      assume "sort_key x \<notin> sort_key ` set (y # rs)"
      then have "sort_key x \<notin> sort_key ` set rs" by auto
      with IH obtain rs' where r: "sort_insert compare_totals x rs = Inr rs'"
        and s: "sorted_wrt (\<lambda>a b. ranks_before b a) rs'"
        and m: "mset rs' = add_mset x (mset rs)" by blast
      from m have "set rs' = insert x (set rs)" by (metis set_mset_add_mset_insert set_mset_mset)
      with above up(2) have "\<forall>z \<in> set rs'. ranks_before z y" by auto
      with s have "sorted_wrt (\<lambda>a b. ranks_before b a) (y # rs')" by simp
      moreover from m have "mset (y # rs') = add_mset x (mset (y # rs))" by simp
      moreover from gt r have "sort_insert compare_totals x (y # rs) = Inr (y # rs')" by auto
      ultimately show "\<exists>rs'. sort_insert compare_totals x (y # rs) = Inr rs'
                   \<and> sorted_wrt (\<lambda>a b. ranks_before b a) rs'
                   \<and> mset rs' = add_mset x (mset (y # rs))" by blast
    qed
  next
    case stay
    then have le: "compare_totals y x = Inr (Fin (fst (sort_key x) - fst (sort_key y)))
                     \<and> \<not> js_gt (Fin (fst (sort_key x) - fst (sort_key y))) (Fin 0)
                 \<or> compare_totals y x = Inr (Fin (snd (sort_key x) - snd (sort_key y)))
                     \<and> \<not> js_gt (Fin (snd (sort_key x) - snd (sort_key y))) (Fin 0)"
      unfolding cmp ranks_before_def by auto
    then have res: "sort_insert compare_totals x (y # rs) = Inr (x # y # rs)" by auto
    from above stay(2) have all: "\<forall>z \<in> set (y # rs). ranks_before z x"
      using ranks_before_trans by auto
    then have "sort_key x \<notin> sort_key ` set (y # rs)"
      using ranks_before_key by force
    moreover from all Cons.prems(2) have "sorted_wrt (\<lambda>a b. ranks_before b a) (x # y # rs)"
      by simp
    ultimately show ?thesis using res by simp
  qed
qed

lemma sorted_keys_distinct:
  "sorted_wrt (\<lambda>a b. ranks_before b a) rs \<Longrightarrow> distinct (map sort_key rs)"
proof (induction rs)
  case Nil
  show ?case by simp
next
  case (Cons y rs)
  then have "\<forall>z \<in> set rs. sort_key z \<noteq> sort_key y"
    using ranks_before_key by auto
  with Cons show ?case by auto
qed

lemma sort_from_fin:
  assumes "list_all fin_keys xs" and "list_all fin_keys rs"
    and "sorted_wrt (\<lambda>a b. ranks_before b a) rs"
  shows "(\<not> distinct (map sort_key (rs @ xs)) \<longrightarrow>
            sort_from compare_totals xs rs = Inl ReferenceError)
       \<and> (distinct (map sort_key (rs @ xs)) \<longrightarrow>
            (\<exists>ys. sort_from compare_totals xs rs = Inr ys
                  \<and> sorted_wrt ranks_before ys \<and> mset ys = mset (rs @ xs)))"
  using assms
proof (induction xs arbitrary: rs)
  case Nil
  then show ?case
    by (simp add: sorted_keys_distinct sorted_wrt_rev)
next
  case (Cons x xs)
  from Cons.prems have fx: "fin_keys x" and fxs: "list_all fin_keys xs" by simp_all
  note ins = sort_insert_fin [OF fx Cons.prems(2,3)]
  show ?case
  proof (cases "sort_key x \<in> sort_key ` set rs")
    case True
    with ins have "sort_from compare_totals (x # xs) rs = Inl ReferenceError" by simp
    moreover from True have "\<not> distinct (map sort_key (rs @ x # xs))" by auto
    ultimately show ?thesis by simp
  next
    case False
    with ins obtain rs' where r: "sort_insert compare_totals x rs = Inr rs'"
      and s: "sorted_wrt (\<lambda>a b. ranks_before b a) rs'"
      and m: "mset rs' = add_mset x (mset rs)" by blast
    from m have st: "set rs' = insert x (set rs)"
      by (metis set_mset_add_mset_insert set_mset_mset)
    with fx Cons.prems(2) have f': "list_all fin_keys rs'"
      by (auto simp: list_all_iff)
    have mm: "mset (rs' @ xs) = mset (rs @ x # xs)" using m by simp
    have dd: "distinct (map sort_key (rs' @ xs)) = distinct (map sort_key (rs @ x # xs))"
    proof -
      have "mset (map sort_key (rs' @ xs)) = mset (map sort_key (rs @ x # xs))"
        using mm by (metis mset_map)
      then show ?thesis by (metis distinct_count_atmost_1 set_mset_mset)
    qed
    have step: "sort_from compare_totals (x # xs) rs = sort_from compare_totals xs rs'"
      using r by simp
    from Cons.IH [OF fxs f' s, unfolded dd mm] show ?thesis
      unfolding step .
  qed
qed

lemma ranking_by_two_keys:
  assumes "list_all fin_keys agg"
  shows "(\<not> distinct (map sort_key agg) \<longrightarrow> ranking agg = Inl ReferenceError)
       \<and> (distinct (map sort_key agg) \<longrightarrow>
            (\<exists>ys. ranking agg = Inr ys \<and> sorted_wrt ranks_before ys \<and> mset ys = mset agg))"
  using sort_from_fin [OF assms, of "[]"] by (simp add: ranking_def js_sort_def)

text \<open>
  Claim C2 asks for an ordering by placements, then intakes, then interviews. The
  comparator of the code orders by the first two keys and throws as soon as it is called
  on two members that tie on both (\<open>ranking_by_two_keys\<close>). When the page
  loads there are no entries, every member has zero totals, and \<open>ranking\<close> throws instead
  of returning an ordering. Two members that differ only in their interviews are not
  ordered either, where the comparator of the specification puts the one with more
  interviews first. When no two members tie on placements and intakes the result is as
  claimed: B, with more intakes, comes before A.
\<close>

theorem ranking_throws_on_ties:
  "ranking (aggregated (filtered (entries ex_locked) (filterRange ex_locked)
                                 (period_of (date ex_locked))))
     = Inl ReferenceError
   \<and> ranking [mk_totals ''A'' 5 10 1, mk_totals ''B'' 5 10 2] = Inl ReferenceError
   \<and> js_sort compare_spec [mk_totals ''A'' 5 10 1, mk_totals ''B'' 5 10 2]
       = Inr [mk_totals ''B'' 5 10 2, mk_totals ''A'' 5 10 1]
   \<and> ranking [mk_totals ''A'' 5 10 0, mk_totals ''B'' 5 20 0]
       = Inr [mk_totals ''B'' 5 20 0, mk_totals ''A'' 5 10 0]"
  by code_simp

section \<open>Properties of the gate and the submission\<close>

lemma after_submit_authorized: "authorized (after (submit addDoc s)) = authorized s"
  by (simp add: submit_def split: option.splits)

lemma fire_keeps_unlocked: "authorized s \<Longrightarrow> enabled s ev \<Longrightarrow> authorized (fire s ev)"
  by (cases ev) (simp_all add: after_submit_authorized)

lemma run_keeps_unlocked: "authorized s \<Longrightarrow> run s evs = Some s' \<Longrightarrow> authorized s'"
proof (induction evs arbitrary: s)
  case Nil
  then show ?case by simp
next
  case (Cons ev evs)
  from Cons.prems(2) have en: "enabled s ev" and rest: "run (fire s ev) evs = Some s'"
    by (simp_all split: if_splits)
  from Cons.prems(1) en have "authorized (fire s ev)" by (rule fire_keeps_unlocked)
  from Cons.IH [OF this rest] show ?case .
qed

lemma fire_unlocks: "\<not> authorized s \<Longrightarrow> enabled s ev \<Longrightarrow> authorized (fire s ev) \<Longrightarrow>
    ev = Unlock \<and> pin s = PINCODE"
  by (cases ev) (simp_all add: after_submit_authorized split: if_splits)

text \<open>
  Claim C8. The page starts locked. From a locked state, entering a string and pressing
  Unlock unlocks the page exactly when the string is the PIN, so a wrong PIN leaves it
  locked; nothing but Unlock with the PIN entered unlocks it; and no enabled event, and
  no run of events, takes an unlocked page back to locked.
\<close>

theorem gate_machine:
  "\<not> authorized (init configured today)
   \<and> (\<not> authorized s \<longrightarrow>
        enabled s (SetPin v) \<and> enabled (fire s (SetPin v)) Unlock
        \<and> authorized (fire (fire s (SetPin v)) Unlock) = (v = PINCODE))
   \<and> (\<not> authorized s \<and> enabled s ev \<and> authorized (fire s ev) \<longrightarrow>
        ev = Unlock \<and> pin s = PINCODE)
   \<and> (authorized s \<and> enabled s ev \<longrightarrow> authorized (fire s ev))
   \<and> (authorized s \<and> run s evs = Some s' \<longrightarrow> authorized s')"
proof (intro conjI impI)
  show "\<not> authorized (init configured today)" by (simp add: init_def)
  show "authorized (fire s ev)" if "authorized s \<and> enabled s ev"
    using that by (simp add: fire_keeps_unlocked)
  show "authorized s'" if "authorized s \<and> run s evs = Some s'"
    using that run_keeps_unlocked by blast
  show "ev = Unlock" if "\<not> authorized s \<and> enabled s ev \<and> authorized (fire s ev)"
    using that fire_unlocks by blast
  show "pin s = PINCODE" if "\<not> authorized s \<and> enabled s ev \<and> authorized (fire s ev)"
    using that fire_unlocks by blast
qed simp_all

theorem gate_machine_witness:
  "\<not> authorized ex_locked
   \<and> \<not> authorized (fire (fire ex_locked (SetPin ''8484'')) Unlock)
   \<and> authorized (fire (fire ex_locked (SetPin ''8448'')) Unlock)
   \<and> pin (fire ex_locked (SetPin ''8448'')) = PINCODE
   \<and> authorized (fire (fire (fire ex_locked (SetPin ''8448'')) Unlock) (Save rejecting))
   \<and> map_option authorized
        (run (fire (fire ex_locked (SetPin ''8448'')) Unlock)
           [SetIntakes ''3'', Save accepting, Reset, SetDate None])
       = Some True"
proof -
  let ?p = "fire ex_locked (SetPin ''8448'')"
  let ?u = "fire ?p Unlock"
  let ?evs = "[SetIntakes ''3'', Save accepting, Reset, SetDate None]"
  have l: "\<not> authorized ex_locked"
    using gate_machine [of True "Some (ymd 2024 3 5)"] by (simp add: ex_locked_def)
  from l gate_machine [of _ _ ex_locked "''8484''"]
  have w: "\<not> authorized (fire (fire ex_locked (SetPin ''8484'')) Unlock)"
    by (simp add: PINCODE_def)
  from l gate_machine [of _ _ ex_locked "''8448''"]
  have u: "authorized ?u" and en: "enabled ?p Unlock"
    by (simp_all add: PINCODE_def)
  have lp: "\<not> authorized ?p" using l by simp
  from lp en u gate_machine [of _ _ ?p _ Unlock]
  have p: "pin ?p = PINCODE"
    by blast
  from u gate_machine [of _ _ ?u _ "Save rejecting"]
  have s: "authorized (fire ?u (Save rejecting))"
    by simp
  from u have "\<exists>s'. run ?u ?evs = Some s'"
    by (simp add: after_submit_authorized)
  then obtain s' where r: "run ?u ?evs = Some s'" ..
  with u gate_machine [of _ _ ?u _ _ ?evs s'] have "authorized s'"
    by blast
  with r have "map_option authorized (run ?u ?evs) = Some True" by simp
  with l w u p s show ?thesis by simp
qed

text \<open>
  Claim C10. Called while the page is locked, \<open>submit\<close> cancels the browser's own form
  submission, shows the alert and returns: nothing is appended, the state of the page,
  the form included, is unchanged, and the result depends neither on the selected date
  nor on the form, so no bucket is computed.
\<close>

theorem submit_locked:
  assumes "\<not> authorized s"
  shows "submit addDoc s =
           \<lparr>effects = [PreventDefault, Alert ''Enter access code first''],
            completion = Inr (), after = s\<rparr>"
  using assms by (simp add: submit_def)

theorem submit_locked_witness:
  "effects (submit accepting ex_locked) = [PreventDefault, Alert ''Enter access code first'']
   \<and> form (after (submit accepting ex_locked)) = zero_form"
proof -
  have "\<not> authorized ex_locked" by (simp add: ex_locked_def init_def)
  from submit_locked [OF this, of accepting] show ?thesis
    by (simp add: ex_locked_def init_def)
qed

text \<open>
  Claim C9. When the store rejects the append, \<open>submit\<close> stops there: the rejection is its
  completion, the form is as it was and there is no celebration. Conversely, whenever
  \<open>submit\<close> celebrates or changes the state of the page, the append was accepted.
\<close>

theorem append_failure_keeps_form:
  "(authorized s \<and> db s \<and> date s = Some d \<and> addDoc (payload s d) = Some reason \<longrightarrow>
      submit addDoc s =
        \<lparr>effects = [PreventDefault, AddDoc (payload s d)],
         completion = Inl (Rejected reason), after = s\<rparr>)
   \<and> (Confetti \<in> set (effects (submit addDoc s)) \<or> after (submit addDoc s) \<noteq> s \<longrightarrow>
        authorized s \<and> db s \<and> (\<exists>d. date s = Some d \<and> addDoc (payload s d) = None))"
  by (auto simp add: submit_def split: option.splits if_splits)

theorem append_failure_keeps_form_witness:
  "effects (submit rejecting ex_unlocked)
     = [PreventDefault, AddDoc (payload ex_unlocked (ymd 2024 3 5))]
   \<and> form (after (submit rejecting ex_unlocked)) = form ex_unlocked
   \<and> completion (submit rejecting ex_unlocked) = Inl (Rejected ''unavailable'')
   \<and> after (submit accepting ex_unlocked) \<noteq> ex_unlocked
   \<and> accepting (payload ex_unlocked (ymd 2024 3 5)) = None"
proof -
  have h: "authorized ex_unlocked \<and> db ex_unlocked \<and> date ex_unlocked = Some (ymd 2024 3 5)
      \<and> rejecting (payload ex_unlocked (ymd 2024 3 5)) = Some ''unavailable''"
    by (simp add: ex_unlocked_def ex_locked_def init_def rejecting_def)
  have "form (after (submit accepting ex_unlocked)) \<noteq> form ex_unlocked"
    by (simp add: submit_def ex_unlocked_def ex_locked_def init_def accepting_def zero_form_def)
  then have c: "after (submit accepting ex_unlocked) \<noteq> ex_unlocked"
    by auto
  with append_failure_keeps_form [of ex_unlocked _ accepting] h
  have "accepting (payload ex_unlocked (ymd 2024 3 5)) = None"
    by auto
  with append_failure_keeps_form [of ex_unlocked "ymd 2024 3 5" rejecting "''unavailable''"] h c
  show ?thesis by simp
qed

subsection \<open>Reading numeric literals\<close>

text \<open>
  The rounding at work: one tenth is not a binary64 number, \<open>2^53 + 1\<close> rounds to \<open>2^53\<close>,
  a positive literal below half the least subnormal number is 0, a no-break space before
  a digit is dropped, and a literal with a trailing unit is not a number.
\<close>

lemma Number_examples:
  "Number (JStr ''0.1'') = Fin (3602879701896397 / 36028797018963968)"
  "Number (JStr ''9007199254740993'') = Fin 9007199254740992"
  "Number (JStr ''1e-324'') = Fin 0"
  "Number (JStr [CHR 0xC2, CHR 0xA0, CHR ''5'']) = Fin 5"
  "Number (JStr ''12px'') = NaN"
  "Number (JStr ''-0'') = Fin 0"
  by code_simp+

text \<open>
  The constraints of an input at work: a negative number and a fraction are refused, an
  emptied field and a count pass, and so does a literal beyond the binary64 range.
\<close>

lemma input_valid_examples:
  "\<not> input_valid (JStr ''-5'')" "\<not> input_valid (JStr ''2.5'')"
  "input_valid (JStr [])" "input_valid (JStr ''12'')" "input_valid (JNum (Fin 0))"
  by code_simp+

subsection \<open>What a submission stores\<close>

lemma appended_is_payload:
  "AddDoc e \<in> set (effects (submit addDoc s)) \<Longrightarrow> \<exists>d. date s = Some d \<and> e = payload s d"
  by (auto simp add: submit_def split: option.splits if_splits)

lemma StringToNumber_empty: "StringToNumber [] = Fin 0"
  by (simp add: StringToNumber_def trim_def)

text \<open>
  Under the constraints of its input a field is stored as a count, unless its value lies
  beyond the binary64 range, which the constraints let pass and \<open>Number\<close> reads as an
  infinity.
\<close>

lemma valid_input_stored:
  assumes "input_valid v"
  shows "is_count (js_or (Number v) (Fin 0))
       \<or> js_or (Number v) (Fin 0) = PInf \<or> js_or (Number v) (Fin 0) = NInf"
proof (cases v)
  case (JNum n)
  with assms show ?thesis
    by (cases n) (simp_all add: js_or_def)
next
  case (JStr s)
  show ?thesis
  proof (cases "s = []")
    case True
    with JStr show ?thesis
      by (simp add: StringToNumber_empty js_or_def)
  next
    case False
    with assms JStr show ?thesis
      by (cases "StringToNumber s") (simp_all add: js_or_def)
  qed
qed

lemma valid_form_stored:
  assumes "form_valid (form s)" and "AddDoc e \<in> set (effects (submit addDoc s))"
  shows "(is_count (intakes e) \<or> intakes e = PInf \<or> intakes e = NInf)
       \<and> (is_count (interviews e) \<or> interviews e = PInf \<or> interviews e = NInf)
       \<and> (is_count (placements e) \<or> placements e = PInf \<or> placements e = NInf)
       \<and> (is_count (prospects e) \<or> prospects e = PInf \<or> prospects e = NInf)"
proof -
  from appended_is_payload [OF assms(2)] obtain d where "e = payload s d" by blast
  with assms(1) show ?thesis
    by (simp add: payload_def form_valid_def valid_input_stored)
qed





end
